theory Spec2Isabelle
  imports Main "HOL-Library.Word"
begin

unbundle bit_operations_syntax

section \<open>Bytes, hashes and addresses\<close>

text \<open>
  Go's \<open>byte\<close> is an 8-bit word and \<open>int64\<close> a 64-bit word read in two's complement.
  \<open>type Hash [md5.Size]byte\<close> is an array of 16 bytes: a byte list whose length is 16.
  \<open>type Address []byte\<close> is a byte list of any length.
\<close>

type_synonym byte = "8 word"
type_synonym int64 = "64 word"
type_synonym Hash = "byte list"
type_synonym Address = "byte list"

definition md5_Size :: nat where
  "md5_Size = 16"

definition is_Hash :: "Hash \<Rightarrow> bool" where
  "is_Hash h = (length h = md5_Size)"

text \<open>\<open>var EmptyHash Hash\<close>: the zero value of the array type.\<close>

definition EmptyHash :: Hash where
  "EmptyHash = replicate md5_Size 0"

text \<open>
  \<open>func (h Hash) Valid() bool { return h[0] == 0 && h[1] == 0 && h[2]&0xfc == 0 }\<close>
\<close>

definition Hash_Valid :: "Hash \<Rightarrow> bool" where
  "Hash_Valid h = (h ! 0 = 0 \<and> h ! 1 = 0 \<and> (h ! 2) AND 0xfc = 0)"

text \<open>
  The bits of a hash in transmission order: byte 0 first, and within a byte the most
  significant bit first.  \<open>first_bits_zero n h\<close> says that the first \<open>n\<close> of them are 0.
\<close>

definition byte_bits :: "byte \<Rightarrow> bool list" where
  "byte_bits b = map (bit b) (rev [0..<8])"

definition hash_bits :: "Hash \<Rightarrow> bool list" where
  "hash_bits h = concat (map byte_bits h)"

definition first_bits_zero :: "nat \<Rightarrow> Hash \<Rightarrow> bool" where
  "first_bits_zero n h = (take n (hash_bits h) = replicate n False)"

definition top_bits_zero :: "nat \<Rightarrow> byte \<Rightarrow> bool" where
  "top_bits_zero n b = (take n (byte_bits b) = replicate n False)"

definition pow_example_hash :: Hash where
  "pow_example_hash = [0, 0, 3] @ replicate 13 0xff"

definition pow_18_bit_hash :: Hash where
  "pow_18_bit_hash = [0, 0, 0x20] @ replicate 13 0"


section \<open>Errors\<close>

text \<open>
  Go errors as values.  \<open>New\<close> is \<open>errors.New\<close>/\<open>errors.Errorf\<close>, \<open>Wrap\<close> is
  \<open>errors.Wrap\<close>, \<open>InvalidBlockError\<close> is the struct of db.go with its message and optional
  cause, \<open>ErrUnknownParent\<close> is the package-level sentinel (created by \<open>errors.New\<close>, compared
  by identity, and not of type \<open>InvalidBlockError\<close>), \<open>SqliteError\<close> is \<open>sqlite3.Error\<close> with
  its code, \<open>TxError\<close> is \<open>database.TxError{cause, tries}\<close> and \<open>ErrNoRows\<close> is
  \<open>sql.ErrNoRows\<close>.  Messages built with \<open>fmt.Sprintf\<close> are kept as their format string.
\<close>

datatype sqlite_code =
    ErrConstraintPrimaryKey | ErrConstraintNotNull | ErrConstraintForeignKey
  | ErrBusy | ErrLocked | ErrProtocol

datatype error =
    New string
  | Wrap error string
  | InvalidBlockError string "error option"
  | ErrUnknownParent
  | SqliteError sqlite_code
  | TxError "error option" int
  | ErrNoRows

text \<open>The type assertion \<open>_, ok := err.(InvalidBlockError)\<close>.\<close>

fun is_InvalidBlockError :: "error \<Rightarrow> bool" where
  "is_InvalidBlockError (InvalidBlockError m c) = True"
| "is_InvalidBlockError _ = False"

section \<open>Transactions and blocks\<close>

datatype Version = V1 | V2

record TxOutput =
  Destination :: Address
  Amount :: int64

text \<open>\<open>Tx\<close> embeds \<open>TxOutput\<close> and \<open>SignedTx\<close> embeds \<open>Tx\<close>: record extension.\<close>

record Tx = TxOutput +
  Source :: Address
  Fee :: int64

record SignedTx = Tx +
  TxHash :: Hash
  ID :: "byte list"
  Signature :: "byte list"
  PublicKey :: "byte list"

record Block =
  Hash :: Hash
  PreviousHash :: Hash
  Height :: int64
  Nonce :: int64
  RewardOutput :: TxOutput
  Transactions :: "SignedTx list"

definition MaxBlockReward :: int where
  "MaxBlockReward = 1000"

definition MaxTransactionsPerBlock :: int where
  "MaxTransactionsPerBlock = 100"

section \<open>The standard library the code calls\<close>

text \<open>
  \<open>crypto/md5\<close>, \<open>crypto/rsa\<close>, \<open>crypto/x509\<close> and \<open>encoding/json\<close> are not part of the
  repository: they are parameters of the model, collected in one record.  \<open>json.Marshal\<close>
  fails only on unsupported types, cycles and failing \<open>MarshalJSON\<close> methods, none of which
  occurs for \<open>Tx\<close>, \<open>SignedTx\<close> and \<open>[]SignedTx\<close> (byte slices, \<open>int64\<close> and the hex strings
  of \<open>TxID.MarshalJSON\<close>), so the three encoders are total and the \<open>err != nil\<close> branches
  after them are never taken.  \<open>x509.ParsePKCS1PublicKey\<close> and \<open>rsa.VerifyPSS\<close> do fail.
\<close>

record rsa_PublicKey =
  rsa_N :: int
  rsa_E :: int

record stdlib =
  md5_Sum :: "byte list \<Rightarrow> Hash"
  ParsePKCS1PublicKey :: "byte list \<Rightarrow> error + rsa_PublicKey"
  MarshalPKCS1PublicKey :: "rsa_PublicKey \<Rightarrow> byte list"
  VerifyPSS :: "rsa_PublicKey \<Rightarrow> byte list \<Rightarrow> byte list \<Rightarrow> error option"
  json_Tx :: "Tx \<Rightarrow> byte list"
  json_SignedTx :: "SignedTx \<Rightarrow> byte list"
  json_SignedTxs :: "SignedTx list \<Rightarrow> byte list"

text \<open>
  The field \<open>Hash\<close> of \<open>SignedTx\<close> carries the tag \<open>json:"-"\<close>: it is not encoded, and a
  decoded value has the zero hash there.  The encoders are applied to the value with that
  field zeroed, so that no encoding can depend on it.
\<close>

definition json_strip :: "SignedTx \<Rightarrow> SignedTx" where
  "json_strip s = s\<lparr>TxHash := EmptyHash\<rparr>"

definition json_Marshal_SignedTx :: "stdlib \<Rightarrow> SignedTx \<Rightarrow> byte list" where
  "json_Marshal_SignedTx env s = json_SignedTx env (json_strip s)"

definition json_Marshal_SignedTxs :: "stdlib \<Rightarrow> SignedTx list \<Rightarrow> byte list" where
  "json_Marshal_SignedTxs env ss = json_SignedTxs env (map json_strip ss)"

text \<open>\<open>json.Marshal(s.Tx)\<close>: the embedded \<open>Tx\<close> of a \<open>SignedTx\<close>.\<close>

definition json_Marshal_Tx :: "stdlib \<Rightarrow> 'a Tx_scheme \<Rightarrow> byte list" where
  "json_Marshal_Tx env t = json_Tx env (Tx.truncate t)"

text \<open>
  \<open>binary.Write(h, binary.BigEndian, v)\<close> for an \<open>int64\<close> writes the eight bytes
  \<open>byte(v >> 56), byte(v >> 48), \<dots>, byte(v)\<close>.
\<close>

definition BigEndian_int64 :: "int64 \<Rightarrow> byte list" where
  "BigEndian_int64 v =
     [ucast (drop_bit 56 v), ucast (drop_bit 48 v), ucast (drop_bit 40 v), ucast (drop_bit 32 v),
      ucast (drop_bit 24 v), ucast (drop_bit 16 v), ucast (drop_bit 8 v), ucast v]"

text \<open>The value a byte string denotes when read as a big-endian unsigned number.\<close>

definition big_endian_value :: "byte list \<Rightarrow> nat" where
  "big_endian_value bs = foldl (\<lambda>acc b. acc * 256 + unat b) 0 bs"

text \<open>
  \<open>overflow.Add64\<close> of the dependency github.com/JohnCGriffin/overflow:
  \<open>c := a + b; if (c > a) == (b > 0) { return c, true }; return c, false\<close>.
\<close>

definition overflow_Add64 :: "int64 \<Rightarrow> int64 \<Rightarrow> int64 \<times> bool" where
  "overflow_Add64 a b = (let c = a + b in if (a <s c) = (0 <s b) then (c, True) else (c, False))"

section \<open>Addresses and transaction validation\<close>

definition AddressFromKey :: "stdlib \<Rightarrow> Version \<Rightarrow> rsa_PublicKey \<Rightarrow> Address" where
  "AddressFromKey env version k =
     (let hash = md5_Sum env (MarshalPKCS1PublicKey env k)
      in if version = V1 then take 2 hash else hash)"

definition ValidAmounts :: "'a Tx_scheme \<Rightarrow> error option" where
  "ValidAmounts t =
     (if Fee t <s 0 then Some (New ''cryptopuff: negative fee'')
      else if Amount t \<le>s 0 then Some (New ''cryptopuff: negative or zero amount'')
      else (case overflow_Add64 (Fee t) (Amount t) of
              (_, ok) \<Rightarrow>
                if \<not> ok then Some (New ''cryptopuff: fee plus amount overflows'') else None))"

definition RequiredBalance :: "'a Tx_scheme \<Rightarrow> int64" where
  "RequiredBalance t = Fee t + Amount t"

definition SignedTx_UpdateHash :: "stdlib \<Rightarrow> SignedTx \<Rightarrow> SignedTx" where
  "SignedTx_UpdateHash env s = s\<lparr>TxHash := md5_Sum env (json_Marshal_SignedTx env s)\<rparr>"

definition ValidSignature :: "stdlib \<Rightarrow> SignedTx \<Rightarrow> error option" where
  "ValidSignature env s =
     (case ParsePKCS1PublicKey env (PublicKey s) of
        Inl err \<Rightarrow> Some (Wrap err ''cryptopuff: failed to parse public key'')
      | Inr k \<Rightarrow>
          (let addressV1 = AddressFromKey env V1 k;
               addressV2 = AddressFromKey env V2 k
           in if addressV1 \<noteq> Source s \<and> addressV2 \<noteq> Source s
              then Some (New ''cryptopuff: address doesn't match public key'')
              else (let b = json_Marshal_Tx env s;
                        hash = md5_Sum env b
                    in case VerifyPSS env k hash (Signature s) of
                         Some err \<Rightarrow> Some (Wrap err ''cryptopuff: invalid signature'')
                       | None \<Rightarrow> None)))"

definition SignedTx_Valid :: "stdlib \<Rightarrow> SignedTx \<Rightarrow> error option" where
  "SignedTx_Valid env s =
     (case ValidAmounts s of
        Some err \<Rightarrow> Some (InvalidBlockError ''cryptopuff: invalid amounts'' (Some err))
      | None \<Rightarrow>
          (case ValidSignature env s of
             Some err \<Rightarrow> Some (InvalidBlockError ''cryptopuff: invalid signature'' (Some err))
           | None \<Rightarrow> None))"

text \<open>
  The SignedTx rules in the words of the specification: positive amount, non-negative fee,
  fee plus amount within the signed 64-bit range, the declared source equal to the V1 or V2
  address of the included public key, and the PSS signature verified over the MD5 of the
  encoding of the unsigned transaction.
\<close>

definition fits_int64 :: "int \<Rightarrow> bool" where
  "fits_int64 i = (- (2 ^ 63) \<le> i \<and> i < 2 ^ 63)"

definition SignedTx_rules :: "stdlib \<Rightarrow> SignedTx \<Rightarrow> bool" where
  "SignedTx_rules env s =
     (0 < sint (Amount s) \<and> 0 \<le> sint (Fee s) \<and> fits_int64 (sint (Fee s) + sint (Amount s)) \<and>
      (case ParsePKCS1PublicKey env (PublicKey s) of
         Inl err \<Rightarrow> False
       | Inr k \<Rightarrow>
           (Source s = AddressFromKey env V1 k \<or> Source s = AddressFromKey env V2 k) \<and>
           VerifyPSS env k (md5_Sum env (json_Tx env (Tx.truncate s))) (Signature s) = None))"

section \<open>Block hashing and validation\<close>

text \<open>
  \<open>md5.New()\<close> returns a running hash: \<open>Write\<close> appends to what has been written and
  \<open>Sum(nil)\<close> returns the digest of all of it.  The running hash is the byte string
  written so far.
\<close>

definition md5_New :: "byte list" where
  "md5_New = []"

definition hash_Write :: "byte list \<Rightarrow> byte list \<Rightarrow> byte list" where
  "hash_Write h p = h @ p"

definition binary_Write :: "byte list \<Rightarrow> int64 \<Rightarrow> byte list" where
  "binary_Write h v = hash_Write h (BigEndian_int64 v)"

definition hash_Sum :: "stdlib \<Rightarrow> byte list \<Rightarrow> Hash" where
  "hash_Sum env h = md5_Sum env h"

definition UpdateHash :: "stdlib \<Rightarrow> Block \<Rightarrow> Block" where
  "UpdateHash env b =
     (let raw = json_Marshal_SignedTxs env (Transactions b);
          txListHash = md5_Sum env raw;
          h = md5_New;
          h = hash_Write h (PreviousHash b);
          h = binary_Write h (Height b);
          h = binary_Write h (Nonce b);
          h = binary_Write h (of_nat (length (Destination (RewardOutput b))));
          h = hash_Write h (Destination (RewardOutput b));
          h = binary_Write h (Amount (RewardOutput b));
          h = hash_Write h txListHash;
          b = b\<lparr>Hash := hash_Sum env h\<rparr>
      in b\<lparr>Transactions := map (SignedTx_UpdateHash env) (Transactions b)\<rparr>)"

text \<open>The loop \<open>for _, t := range b.Transactions\<close> of \<open>Block.Valid\<close>.\<close>

fun Valid_range :: "stdlib \<Rightarrow> SignedTx list \<Rightarrow> error option" where
  "Valid_range env [] = None"
| "Valid_range env (t # ts) =
     (case SignedTx_Valid env t of Some err \<Rightarrow> Some err | None \<Rightarrow> Valid_range env ts)"

definition Block_Valid :: "stdlib \<Rightarrow> Block \<Rightarrow> Block \<Rightarrow> error option" where
  "Block_Valid env b previous =
     (if PreviousHash b \<noteq> Hash previous
      then Some (InvalidBlockError
                   ''cryptopuff: previous hash mismatch (expected %v, got %v)'' None)
      else if Height b \<noteq> Height previous + 1
      then Some (InvalidBlockError ''cryptopuff: height mismatch (expected %v, got %v)'' None)
      else if \<not> Hash_Valid (Hash b)
      then Some (InvalidBlockError
                   ''cryptopuff: hash doesn't meet difficulty requirement'' None)
      else if Amount (RewardOutput b) <s 0 \<or> word_of_int MaxBlockReward <s Amount (RewardOutput b)
      then Some (InvalidBlockError
                   ''cryptopuff: reward amount negative or greater than maximum'' None)
      else if int (length (Transactions b)) > MaxTransactionsPerBlock
      then Some (InvalidBlockError
                   ''cryptopuff: number of transactions greater than maximum'' None)
      else Valid_range env (Transactions b))"

text \<open>The block rules in the words of the specification.\<close>

definition Block_rules :: "stdlib \<Rightarrow> Block \<Rightarrow> Block \<Rightarrow> bool" where
  "Block_rules env b p =
     (PreviousHash b = Hash p \<and> Height b = Height p + 1 \<and> Hash_Valid (Hash b) \<and>
      0 \<le> sint (Amount (RewardOutput b)) \<and> sint (Amount (RewardOutput b)) \<le> 1000 \<and>
      length (Transactions b) \<le> 100 \<and>
      list_all (SignedTx_rules env) (Transactions b))"


section \<open>Concrete inputs\<close>

text \<open>
  A small stand-in for the library functions, used only to run the model on concrete inputs:
  the digest of a byte string is made of its length and the sum of its bytes (behind the
  bytes 0, 0, 1, so that it passes the proof-of-work test), a public key is encoded as its
  single modulus byte, and a signature verifies when it equals the digest.
\<close>

definition test_stdlib :: stdlib where
  "test_stdlib =
     \<lparr>md5_Sum =
        (\<lambda>bs. [0, 0, 1, of_nat (length bs), sum_list bs, 0, 0, 0, 0, 0, 0, 0, 0, 0, 0, 0]),
      ParsePKCS1PublicKey =
        (\<lambda>bs. case bs of
                 [n] \<Rightarrow> Inr \<lparr>rsa_N = uint n, rsa_E = 65537\<rparr>
               | _ \<Rightarrow> Inl (New ''x509: failed to parse public key'')),
      MarshalPKCS1PublicKey = (\<lambda>k. [word_of_int (rsa_N k)]),
      VerifyPSS =
        (\<lambda>k h sig. if sig = h then None else Some (New ''crypto/rsa: verification error'')),
      json_Tx = (\<lambda>t. Source t @ Destination t @ [ucast (Amount t), ucast (Fee t)]),
      json_SignedTx = (\<lambda>s. ID s @ Signature s),
      json_SignedTxs = (\<lambda>ss. concat (map ID ss))\<rparr>"

definition test_signature :: "byte list" where
  "test_signature = [0, 0, 1, 6, 59, 0, 0, 0, 0, 0, 0, 0, 0, 0, 0, 0]"

definition test_tx :: SignedTx where
  "test_tx =
     \<lparr>Destination = [9, 0], Amount = 40, Source = [0, 0], Fee = 10,
      TxHash = [0, 0, 1, 17, 67, 0, 0, 0, 0, 0, 0, 0, 0, 0, 0, 0], ID = [1],
      Signature = test_signature, PublicKey = [7]\<rparr>"

definition test_parent :: Block where
  "test_parent =
     \<lparr>Hash = [0, 0, 1, 64, 244, 0, 0, 0, 0, 0, 0, 0, 0, 0, 0, 0], PreviousHash = EmptyHash,
      Height = 0, Nonce = 39611433,
      RewardOutput = \<lparr>Destination = [], Amount = 0\<rparr>, Transactions = []\<rparr>"

definition test_block :: Block where
  "test_block =
     \<lparr>Hash = [0, 0, 1, 66, 172, 0, 0, 0, 0, 0, 0, 0, 0, 0, 0, 0], PreviousHash = Hash test_parent,
      Height = 1, Nonce = 5,
      RewardOutput = \<lparr>Destination = [8, 0], Amount = 100\<rparr>, Transactions = [test_tx]\<rparr>"


section \<open>Package database: transactions with retry\<close>

text \<open>
  \<open>type DB struct { db *sql.DB; logger; tries int; backoff; isDeadlock }\<close>.
  Everything outside the Go values (the SQL connection, the clock, the random generator, the
  log) is the world \<open>'w\<close>; the operations of \<open>*sql.DB\<close>, \<open>*sql.Tx\<close>, the logger and
  \<open>time.Sleep\<close> take the world and return the new one.  Durations are in nanoseconds.
  A closure \<open>f func(tx *sql.Tx) error\<close> is a function from the world to its error (or nil)
  and the new world.
\<close>

record 'w DB =
  tries :: int
  backoff :: "int \<Rightarrow> 'w \<Rightarrow> nat \<times> 'w"
  isDeadlock :: "error \<Rightarrow> bool"
  sql_Begin :: "'w \<Rightarrow> error option \<times> 'w"
  sql_Commit :: "'w \<Rightarrow> error option \<times> 'w"
  sql_Rollback :: "'w \<Rightarrow> error option \<times> 'w"
  logger_Printf :: "string \<Rightarrow> 'w \<Rightarrow> 'w"
  time_Sleep :: "nat \<Rightarrow> 'w \<Rightarrow> 'w"

text \<open>
  backoff.go: \<open>c := rand.Intn(cMax); if c < try { c = try }\<close> and the duration
  \<open>2^c * scale\<close> (computed in floating point in the source, exact for the small
  exponents that occur).  \<open>rand.Intn\<close> is a parameter.
\<close>

definition cMax :: int where
  "cMax = 8"

definition scale :: nat where
  "scale = 10 * 1000000"

definition BinaryExponentialBackoff :: "(int \<Rightarrow> 'w \<Rightarrow> int \<times> 'w) \<Rightarrow> int \<Rightarrow> 'w \<Rightarrow> nat \<times> 'w" where
  "BinaryExponentialBackoff rand_Intn try w =
     (case rand_Intn cMax w of
        (c, w) \<Rightarrow> (let c = (if c < try then try else c) in (2 ^ nat c * scale, w)))"

text \<open>
  db.go, \<open>Open\<close>: after \<open>sql.Open\<close> and \<open>Ping\<close> succeeded, the handle gets 3 tries, the
  binary exponential backoff and the injected deadlock predicate, and then the options are
  applied in order.  The first two arguments are the errors of \<open>sql.Open\<close> and \<open>Ping\<close>,
  the third the opened connection with its logger.
\<close>

definition Tries :: "int \<Rightarrow> 'w DB \<Rightarrow> 'w DB" where
  "Tries n db = db\<lparr>tries := n\<rparr>"

definition Backoff :: "(int \<Rightarrow> 'w \<Rightarrow> nat \<times> 'w) \<Rightarrow> 'w DB \<Rightarrow> 'w DB" where
  "Backoff f db = db\<lparr>backoff := f\<rparr>"

definition Open ::
  "error option \<Rightarrow> error option \<Rightarrow> 'w DB \<Rightarrow> (int \<Rightarrow> 'w \<Rightarrow> int \<times> 'w) \<Rightarrow> (error \<Rightarrow> bool) \<Rightarrow>
   ('w DB \<Rightarrow> 'w DB) list \<Rightarrow> error + 'w DB" where
  "Open open_err ping_err sqlDB rand_Intn isDeadlock' opts =
     (case open_err of
        Some err \<Rightarrow> Inl err
      | None \<Rightarrow>
          (case ping_err of
             Some err \<Rightarrow> Inl err
           | None \<Rightarrow>
               Inr (foldl (\<lambda>db opt. opt db)
                      (sqlDB\<lparr>tries := 3, backoff := BinaryExponentialBackoff rand_Intn,
                             isDeadlock := isDeadlock'\<rparr>)
                      opts)))"

text \<open>
  tx.go, \<open>Transact\<close>: begin; run \<open>f\<close>; in the deferred function, on an error roll back
  (a rollback error is only logged, the error of \<open>f\<close> is returned), otherwise the result
  is the result of \<open>Commit\<close>.
\<close>

definition Transact :: "'w DB \<Rightarrow> ('w \<Rightarrow> error option \<times> 'w) \<Rightarrow> 'w \<Rightarrow> error option \<times> 'w" where
  "Transact d f w =
     (case sql_Begin d w of
        (Some err, w) \<Rightarrow> (Some err, w)
      | (None, w) \<Rightarrow>
          (case f w of
             (Some err, w) \<Rightarrow>
               (case sql_Rollback d w of
                  (Some rerr, w) \<Rightarrow> (Some err, logger_Printf d ''database: rollback failed: %s'' w)
                | (None, w) \<Rightarrow> (Some err, w))
           | (None, w) \<Rightarrow> sql_Commit d w))"

text \<open>
  tx.go, \<open>TransactWithRetry\<close>: the loop \<open>for i := 0; i < tries; i++\<close> with the variable
  \<open>err\<close> that the final \<open>TxError\<close> wraps.
\<close>

function retry_loop ::
  "'w DB \<Rightarrow> ('w \<Rightarrow> error option \<times> 'w) \<Rightarrow> int \<Rightarrow> error option \<Rightarrow> 'w \<Rightarrow> error option \<times> 'w" where
  "retry_loop d f i err w =
     (if i < tries d
      then (case Transact d f w of
              (None, w) \<Rightarrow> (None, w)
            | (Some err, w) \<Rightarrow>
                if \<not> isDeadlock d err then (Some err, w)
                else if i \<noteq> tries d - 1
                then (case backoff d i w of
                        (duration, w) \<Rightarrow> retry_loop d f (i + 1) (Some err) (time_Sleep d duration w))
                else retry_loop d f (i + 1) (Some err) w)
      else (Some (TxError err (tries d)), w))"
  by pat_completeness auto
termination
  by (relation "measure (\<lambda>(d, f, i, err, w). nat (tries d - i))") auto

declare retry_loop.simps [simp del]

definition TransactWithRetry ::
  "'w DB \<Rightarrow> ('w \<Rightarrow> error option \<times> 'w) \<Rightarrow> 'w \<Rightarrow> error option \<times> 'w" where
  "TransactWithRetry d f w =
     (if tries d = 0 then (Some (New ''database: tries must be 1 or greater''), w)
      else retry_loop d f 0 None w)"

text \<open>
  The world at the start of attempt \<open>k\<close> (counted from 0) when every earlier attempt
  failed and was followed by its backoff sleep: attempt \<open>k\<close> runs, then the backoff for
  index \<open>k\<close> is computed and slept.
\<close>

fun attempt_world :: "'w DB \<Rightarrow> ('w \<Rightarrow> error option \<times> 'w) \<Rightarrow> nat \<Rightarrow> 'w \<Rightarrow> 'w" where
  "attempt_world d f 0 w = w"
| "attempt_world d f (Suc k) w =
     (case Transact d f (attempt_world d f k w) of
        (r, w1) \<Rightarrow> (case backoff d (int k) w1 of (duration, w2) \<Rightarrow> time_Sleep d duration w2))"

text \<open>Attempt \<open>k\<close> fails with an error that the injected predicate classifies as deadlock.\<close>

definition attempt_deadlocks :: "'w DB \<Rightarrow> ('w \<Rightarrow> error option \<times> 'w) \<Rightarrow> 'w \<Rightarrow> nat \<Rightarrow> bool" where
  "attempt_deadlocks d f w k =
     (case fst (Transact d f (attempt_world d f k w)) of
        None \<Rightarrow> False
      | Some err \<Rightarrow> isDeadlock d err)"

text \<open>sqlite/deadlock.go: the predicate injected for the embedded backend.\<close>

definition sqlite_isDeadlock :: "error \<Rightarrow> bool" where
  "sqlite_isDeadlock err =
     (case err of
        SqliteError code \<Rightarrow> code = ErrBusy \<or> code = ErrLocked \<or> code = ErrProtocol
      | _ \<Rightarrow> False)"

text \<open>
  A world that records what happens: the closure returns the outcomes of a script, one per
  call, and every begin, run, commit, rollback and sleep is appended to a trace.
\<close>

datatype event = EvBegin | EvRun | EvCommit | EvRollback | EvSleep nat

record script_world =
  script :: "error option list"
  trace :: "event list"

definition emit :: "event \<Rightarrow> script_world \<Rightarrow> script_world" where
  "emit ev w = w\<lparr>trace := trace w @ [ev]\<rparr>"

definition script_f :: "script_world \<Rightarrow> error option \<times> script_world" where
  "script_f w =
     (case script w of
        [] \<Rightarrow> (None, emit EvRun w)
      | r # rs \<Rightarrow> (r, emit EvRun (w\<lparr>script := rs\<rparr>)))"

definition script_DB :: "int \<Rightarrow> (int \<Rightarrow> nat) \<Rightarrow> (error \<Rightarrow> bool) \<Rightarrow> script_world DB" where
  "script_DB n b dl =
     \<lparr>tries = n, backoff = (\<lambda>i w. (b i, w)), isDeadlock = dl,
      sql_Begin = (\<lambda>w. (None, emit EvBegin w)),
      sql_Commit = (\<lambda>w. (None, emit EvCommit w)),
      sql_Rollback = (\<lambda>w. (None, emit EvRollback w)),
      logger_Printf = (\<lambda>s w. w),
      time_Sleep = (\<lambda>duration w. emit (EvSleep duration) w)\<rparr>"

definition busy_script :: "error option list" where
  "busy_script = [Some (SqliteError ErrBusy), Some (SqliteError ErrLocked), Some (SqliteError ErrBusy)]"

definition busy_world :: script_world where
  "busy_world = \<lparr>script = busy_script, trace = []\<rparr>"

definition busy_DB :: "script_world DB" where
  "busy_DB = script_DB 3 (\<lambda>i. nat i + 10) sqlite_isDeadlock"

definition mixed_world :: script_world where
  "mixed_world = \<lparr>script = [Some (SqliteError ErrBusy), Some ErrUnknownParent], trace = []\<rparr>"


section \<open>The chain store\<close>

text \<open>
  The tables of db.go as lists of rows in storage order.  A row of \<open>blocks\<close> is the block
  itself: its columns \<open>hash\<close>, \<open>previous_hash\<close> and \<open>height\<close> are the fields of the block
  that was inserted, and the column \<open>block\<close> is its JSON.  A row of \<open>txs\<close> is the signed
  transaction: the column \<open>hash\<close> is its \<open>Hash\<close> field at insertion and the column \<open>tx\<close>
  its JSON.  \<open>balances\<close> has the key \<open>(block_hash, address)\<close>; \<open>included_txs\<close> and
  \<open>block_txs\<close> hold pairs \<open>(block_hash, tx_hash)\<close>.  Balances are SQLite integers, modelled
  as unbounded integers: a sum that leaves the 64-bit range is outside the model.
  Foreign keys are enabled; every INSERT below references rows that the same function has
  just read or inserted, so a foreign-key failure is not a branch.  Input and output errors
  of the database file are not modelled.
\<close>

record store =
  blocks :: "Block list"
  balances :: "((Hash \<times> Address) \<times> int) list"
  included_txs :: "(Hash \<times> Hash) list"
  block_txs :: "(Hash \<times> Hash) list"
  txs :: "SignedTx list"
  peers :: "string list"

text \<open>
  \<open>Hash.Value\<close> sends \<open>EmptyHash\<close> to SQL NULL.  \<open>sql_match column param\<close> is the comparison
  \<open>column = ?\<close> of a NOT NULL column with a hash parameter: NULL equals nothing.
\<close>

definition sql_match :: "Hash \<Rightarrow> Hash \<Rightarrow> bool" where
  "sql_match column param = (param \<noteq> EmptyHash \<and> column = param)"

text \<open>\<open>SELECT block FROM blocks WHERE hash = ?\<close>\<close>

definition select_block :: "store \<Rightarrow> Hash \<Rightarrow> Block option" where
  "select_block st h = find (\<lambda>b. sql_match (Hash b) h) (blocks st)"

text \<open>\<open>SELECT 1 FROM blocks WHERE hash = ?\<close>\<close>

definition block_exists :: "store \<Rightarrow> Hash \<Rightarrow> bool" where
  "block_exists st h = list_ex (\<lambda>b. sql_match (Hash b) h) (blocks st)"

text \<open>
  \<open>DecodeBlock\<close>: \<open>json.Unmarshal\<close> of a stored row gives back the block with the untagged
  hash fields at their zero value (the row is the output of \<open>json.Marshal\<close>, so decoding does
  not fail), then \<open>UpdateHash\<close> recomputes them.
\<close>

definition json_Unmarshal_Block :: "Block \<Rightarrow> Block" where
  "json_Unmarshal_Block raw = raw\<lparr>Hash := EmptyHash, Transactions := map json_strip (Transactions raw)\<rparr>"

definition DecodeBlock :: "stdlib \<Rightarrow> Block \<Rightarrow> Block" where
  "DecodeBlock env raw = UpdateHash env (json_Unmarshal_Block raw)"

text \<open>
  \<open>INSERT INTO blocks (hash, previous_hash, height, block) VALUES (?, ?, ?, ?)\<close>:
  \<open>hash\<close> is NOT NULL and the primary key.
\<close>

definition insert_block :: "Block \<Rightarrow> store \<Rightarrow> sqlite_code + store" where
  "insert_block block st =
     (if Hash block = EmptyHash then Inl ErrConstraintNotNull
      else if list_ex (\<lambda>b. sql_match (Hash b) (Hash block)) (blocks st)
      then Inl ErrConstraintPrimaryKey
      else Inr (st\<lparr>blocks := blocks st @ [block]\<rparr>))"

text \<open>
  \<open>INSERT INTO balances (block_hash, address, balance) SELECT ?, address, balance FROM
  balances WHERE block_hash = ?\<close>, with the primary key \<open>(block_hash, address)\<close>.
\<close>

definition copy_balances :: "Hash \<Rightarrow> Hash \<Rightarrow> store \<Rightarrow> sqlite_code + store" where
  "copy_balances new prev st =
     (let rows = map (\<lambda>((h, a), v). ((new, a), v))
                   (filter (\<lambda>((h, a), v). sql_match h prev) (balances st))
      in if list_ex (\<lambda>(k, v). k \<in> set (map fst (balances st))) rows
         then Inl ErrConstraintPrimaryKey
         else Inr (st\<lparr>balances := balances st @ rows\<rparr>))"

text \<open>
  \<open>INSERT INTO included_txs (block_hash, tx_hash) SELECT ?, tx_hash FROM included_txs
  WHERE block_hash = ?\<close>, with the primary key \<open>(block_hash, tx_hash)\<close>.
\<close>

definition copy_included :: "Hash \<Rightarrow> Hash \<Rightarrow> store \<Rightarrow> sqlite_code + store" where
  "copy_included new prev st =
     (let rows = map (\<lambda>(h, t). (new, t)) (filter (\<lambda>(h, t). sql_match h prev) (included_txs st))
      in if list_ex (\<lambda>r. r \<in> set (included_txs st)) rows
         then Inl ErrConstraintPrimaryKey
         else Inr (st\<lparr>included_txs := included_txs st @ rows\<rparr>))"

text \<open>\<open>SELECT balance FROM balances WHERE block_hash = ? AND address = ?\<close>\<close>

definition select_balance :: "store \<Rightarrow> Hash \<Rightarrow> Address \<Rightarrow> int option" where
  "select_balance st tip a =
     map_option snd (find (\<lambda>((h, a'), v). sql_match h tip \<and> a' = a) (balances st))"

text \<open>\<open>SELECT 1 FROM included_txs WHERE block_hash = ? AND tx_hash = ?\<close>\<close>

definition is_included :: "store \<Rightarrow> Hash \<Rightarrow> Hash \<Rightarrow> bool" where
  "is_included st tip t = list_ex (\<lambda>(h, t'). sql_match h tip \<and> sql_match t' t) (included_txs st)"

text \<open>\<open>UPDATE balances SET balance = balance - ? WHERE block_hash = ? AND address = ?\<close>\<close>

definition debit_balance :: "Hash \<Rightarrow> Address \<Rightarrow> int \<Rightarrow> store \<Rightarrow> store" where
  "debit_balance h a amount st =
     st\<lparr>balances := map (\<lambda>((h', a'), v). if sql_match h' h \<and> a' = a then ((h', a'), v - amount)
                                          else ((h', a'), v)) (balances st)\<rparr>"

text \<open>
  \<open>INSERT INTO balances (block_hash, address, balance) VALUES (?, ?, ?) ON CONFLICT
  (block_hash, address) DO UPDATE SET balance = balance + excluded.balance\<close>.  It is only
  executed for the hash of the block row inserted before, which is not NULL.
\<close>

definition credit_balance :: "Hash \<Rightarrow> Address \<Rightarrow> int \<Rightarrow> store \<Rightarrow> store" where
  "credit_balance h a amount st =
     (if list_ex (\<lambda>(k, v). k = (h, a)) (balances st)
      then st\<lparr>balances := map (\<lambda>(k, v). if k = (h, a) then (k, v + amount) else (k, v))
                               (balances st)\<rparr>
      else st\<lparr>balances := balances st @ [((h, a), amount)]\<rparr>)"

text \<open>
  \<open>addTx\<close>: \<open>INSERT OR IGNORE INTO txs (hash, \<dots>) VALUES (?, \<dots>)\<close>; a NULL hash and a hash
  already present are both ignored.
\<close>

definition addTx :: "SignedTx \<Rightarrow> store \<Rightarrow> store" where
  "addTx stx st =
     (if TxHash stx = EmptyHash \<or> list_ex (\<lambda>t. TxHash t = TxHash stx) (txs st) then st
      else st\<lparr>txs := txs st @ [stx]\<rparr>)"

text \<open>\<open>INSERT INTO included_txs (block_hash, tx_hash) VALUES (?, ?)\<close>\<close>

definition insert_included :: "Hash \<Rightarrow> Hash \<Rightarrow> store \<Rightarrow> sqlite_code + store" where
  "insert_included h t st =
     (if h = EmptyHash \<or> t = EmptyHash then Inl ErrConstraintNotNull
      else if (h, t) \<in> set (included_txs st) then Inl ErrConstraintPrimaryKey
      else Inr (st\<lparr>included_txs := included_txs st @ [(h, t)]\<rparr>))"

text \<open>\<open>INSERT INTO block_txs (block_hash, tx_hash) VALUES (?, ?)\<close>\<close>

definition insert_block_tx :: "Hash \<Rightarrow> Hash \<Rightarrow> store \<Rightarrow> sqlite_code + store" where
  "insert_block_tx h t st =
     (if h = EmptyHash \<or> t = EmptyHash then Inl ErrConstraintNotNull
      else if (h, t) \<in> set (block_txs st) then Inl ErrConstraintPrimaryKey
      else Inr (st\<lparr>block_txs := block_txs st @ [(h, t)]\<rparr>))"

text \<open>\<open>DELETE FROM balances WHERE balance = 0\<close>\<close>

definition delete_zero_balances :: "store \<Rightarrow> store" where
  "delete_zero_balances st = st\<lparr>balances := filter (\<lambda>(k, v). v \<noteq> 0) (balances st)\<rparr>"

subsection \<open>validTx and addBlock\<close>

definition validTx :: "stdlib \<Rightarrow> SignedTx \<Rightarrow> Hash \<Rightarrow> store \<Rightarrow> error option" where
  "validTx env stx tip st =
     (case SignedTx_Valid env stx of
        Some err \<Rightarrow> Some err
      | None \<Rightarrow>
          (let balance = (case select_balance st tip (Source stx) of None \<Rightarrow> 0 | Some v \<Rightarrow> v)
           in if balance < sint (RequiredBalance stx)
              then Some (InvalidBlockError
                           ''cryptopuff: insufficient balance (%v coins, %v required)'' None)
              else if is_included st tip (TxHash stx)
              then Some (InvalidBlockError
                           ''cryptopuff: transaction already included in blockchain'' None)
              else None))"

text \<open>
  The loop \<open>for _, stx := range block.Transactions\<close> of \<open>addBlock\<close>, with the running
  \<open>fee\<close> (an \<open>int64\<close>, starting from the reward amount).
\<close>

fun addBlock_range ::
  "stdlib \<Rightarrow> Block \<Rightarrow> SignedTx list \<Rightarrow> int64 \<Rightarrow> store \<Rightarrow> error + (int64 \<times> store)" where
  "addBlock_range env block [] fee st = Inr (fee, st)"
| "addBlock_range env block (stx # rest) fee st =
     (let fee = fee + Fee stx
      in case validTx env stx (Hash block) st of
           Some err \<Rightarrow> Inl err
         | None \<Rightarrow>
             (let st = debit_balance (Hash block) (Source stx) (sint (RequiredBalance stx)) st;
                  st = credit_balance (Hash block) (Destination stx) (sint (Amount stx)) st;
                  st = addTx stx st
              in case insert_included (Hash block) (TxHash stx) st of
                   Inl code \<Rightarrow> Inl (SqliteError code)
                 | Inr st \<Rightarrow>
                     (case insert_block_tx (Hash block) (TxHash stx) st of
                        Inl code \<Rightarrow> Inl (SqliteError code)
                      | Inr st \<Rightarrow> addBlock_range env block rest fee st)))"

text \<open>
  \<open>addBlock(tx, block)\<close>.  The result is the error, after which the caller's transaction
  is rolled back, or the store as the statements leave it.
\<close>

definition addBlock :: "stdlib \<Rightarrow> Block \<Rightarrow> store \<Rightarrow> error + store" where
  "addBlock env block st =
     (case select_block st (PreviousHash block) of
        None \<Rightarrow> Inl ErrUnknownParent
      | Some raw \<Rightarrow>
          (let previous = DecodeBlock env raw
           in case insert_block block st of
                Inl code \<Rightarrow>
                  if code = ErrConstraintPrimaryKey then Inr st else Inl (SqliteError code)
              | Inr st \<Rightarrow>
                  (case copy_balances (Hash block) (PreviousHash block) st of
                     Inl code \<Rightarrow> Inl (SqliteError code)
                   | Inr st \<Rightarrow>
                       (case copy_included (Hash block) (PreviousHash block) st of
                          Inl code \<Rightarrow> Inl (SqliteError code)
                        | Inr st \<Rightarrow>
                            (case Block_Valid env block previous of
                               Some err \<Rightarrow> Inl err
                             | None \<Rightarrow>
                                 (case addBlock_range env block (Transactions block)
                                         (Amount (RewardOutput block)) st of
                                    Inl err \<Rightarrow> Inl err
                                  | Inr (fee, st) \<Rightarrow>
                                      (let st = (if 0 <s fee
                                                 then credit_balance (Hash block)
                                                        (Destination (RewardOutput block))
                                                        (sint fee) st
                                                 else st)
                                       in Inr (delete_zero_balances st))))))))"

subsection \<open>AddBlocks\<close>

text \<open>
  The first loop of \<open>AddBlocks\<close>: the index of the first block of the chain that is in the
  \<open>blocks\<close> table, or -1.  The second argument is the rest of the chain from index \<open>i\<close>.
\<close>

fun divergedAt_range :: "store \<Rightarrow> Block list \<Rightarrow> int \<Rightarrow> int" where
  "divergedAt_range st [] i = - 1"
| "divergedAt_range st (block # rest) i =
     (if \<not> block_exists st (Hash block) then divergedAt_range st rest (i + 1) else i)"

text \<open>The second loop: \<open>for i := divergedAt - 1; i >= 0; i--\<close>.\<close>

function addBlocks_down :: "stdlib \<Rightarrow> Block list \<Rightarrow> int \<Rightarrow> store \<Rightarrow> error + store" where
  "addBlocks_down env chain i st =
     (if 0 \<le> i
      then (case addBlock env (chain ! nat i) st of
              Inl err \<Rightarrow> Inl err
            | Inr st \<Rightarrow> addBlocks_down env chain (i - 1) st)
      else Inr st)"
  by pat_completeness auto
termination
  by (relation "measure (\<lambda>(env, chain, i, st). nat (i + 1))") auto

declare addBlocks_down.simps [simp del]

definition AddBlocks_tx :: "stdlib \<Rightarrow> Block list \<Rightarrow> store \<Rightarrow> error + store" where
  "AddBlocks_tx env chain st =
     (let divergedAt = divergedAt_range st chain 0
      in if divergedAt \<le> 0 then Inr st
         else addBlocks_down env chain (divergedAt - 1) st)"

text \<open>
  In the words of the specification: the fork point is the position of the first block
  already known, and blocks are applied one after the other, stopping at the first error.
\<close>

definition fork_point :: "store \<Rightarrow> Block list \<Rightarrow> nat" where
  "fork_point st chain = length (takeWhile (\<lambda>b. \<not> block_exists st (Hash b)) chain)"

fun apply_blocks :: "stdlib \<Rightarrow> Block list \<Rightarrow> store \<Rightarrow> error + store" where
  "apply_blocks env [] st = Inr st"
| "apply_blocks env (b # bs) st =
     (case addBlock env b st of Inl err \<Rightarrow> Inl err | Inr st \<Rightarrow> apply_blocks env bs st)"

subsection \<open>The store behind TransactWithRetry\<close>

text \<open>
  The world of a store transaction: the committed store, the store as the open transaction
  sees it, and the variable of the caller that the closure assigns (\<open>stxs\<close>, \<open>created\<close>).
  BEGIN starts from the committed store, COMMIT makes the working store the committed one,
  ROLLBACK drops it.  There is one connection and no contention, so these three succeed.
\<close>

record 'r conn =
  durable :: store
  working :: store
  captured :: 'r

definition store_sqlDB :: "'r conn DB" where
  "store_sqlDB =
     \<lparr>tries = 0, backoff = (\<lambda>i w. (0, w)), isDeadlock = (\<lambda>err. False),
      sql_Begin = (\<lambda>w. (None, w\<lparr>working := durable w\<rparr>)),
      sql_Commit = (\<lambda>w. (None, w\<lparr>durable := working w\<rparr>)),
      sql_Rollback = (\<lambda>w. (None, w\<lparr>working := durable w\<rparr>)),
      logger_Printf = (\<lambda>s w. w),
      time_Sleep = (\<lambda>duration w. w)\<rparr>"

text \<open>
  The handle of \<open>sqlite.Open\<close>: \<open>database.Open\<close> with the sqlite deadlock predicate and no
  options.  The random number only sets the length of a sleep.
\<close>

definition store_DB :: "'r conn DB" where
  "store_DB =
     (case Open None None store_sqlDB (\<lambda>n w. (0, w)) sqlite_isDeadlock [] of
        Inr db \<Rightarrow> db
      | Inl err \<Rightarrow> store_sqlDB)"

text \<open>A closure over the store that assigns a result to a variable of its caller.\<close>

definition tx_closure :: "(store \<Rightarrow> error + 'r \<times> store) \<Rightarrow> 'r conn \<Rightarrow> error option \<times> 'r conn" where
  "tx_closure g w =
     (case g (working w) of
        Inl err \<Rightarrow> (Some err, w)
      | Inr (r, st) \<Rightarrow> (None, w\<lparr>working := st, captured := r\<rparr>))"

definition with_retry :: "'r \<Rightarrow> (store \<Rightarrow> error + 'r \<times> store) \<Rightarrow> store \<Rightarrow> (error + 'r) \<times> store" where
  "with_retry r0 g st =
     (case TransactWithRetry store_DB (tx_closure g)
             \<lparr>durable = st, working = st, captured = r0\<rparr> of
        (Some err, w) \<Rightarrow> (Inl err, durable w)
      | (None, w) \<Rightarrow> (Inr (captured w), durable w))"

text \<open>A closure that assigns nothing.\<close>

definition no_result :: "error + store \<Rightarrow> error + unit \<times> store" where
  "no_result r = (case r of Inl err \<Rightarrow> Inl err | Inr st \<Rightarrow> Inr ((), st))"

definition error_of :: "(error + unit) \<times> store \<Rightarrow> error option \<times> store" where
  "error_of r = (case r of (Inl err, st) \<Rightarrow> (Some err, st) | (Inr u, st) \<Rightarrow> (None, st))"

definition DB_AddBlock :: "stdlib \<Rightarrow> Block \<Rightarrow> store \<Rightarrow> error option \<times> store" where
  "DB_AddBlock env block st = error_of (with_retry () (\<lambda>tx. no_result (addBlock env block tx)) st)"

definition DB_AddBlocks :: "stdlib \<Rightarrow> Block list \<Rightarrow> store \<Rightarrow> error option \<times> store" where
  "DB_AddBlocks env chain st =
     error_of (with_retry () (\<lambda>tx. no_result (AddBlocks_tx env chain tx)) st)"


text \<open>The errors of the store functions: validation errors, the unknown-parent sentinel
  and constraint violations; none of them is classified as deadlock.\<close>

fun store_error :: "error \<Rightarrow> bool" where
  "store_error (InvalidBlockError m c) = True"
| "store_error ErrUnknownParent = True"
| "store_error (SqliteError code) = (code = ErrConstraintPrimaryKey \<or> code = ErrConstraintNotNull)"
| "store_error _ = False"


definition test_store :: store where
  "test_store =
     \<lparr>blocks = [test_parent], balances = [((Hash test_parent, [0, 0]), 100)],
      included_txs = [], block_txs = [], txs = [], peers = []\<rparr>"


subsection \<open>Peers\<close>

text \<open>
  \<open>DB.AddPeer\<close>: \<open>INSERT OR IGNORE INTO peers (peer) VALUES (?)\<close> on the table
  \<open>peers (peer TEXT PRIMARY KEY NOT NULL)\<close>, whose key compares byte for byte (SQLite's
  default collation), then \<open>created = true\<close> if a row was affected.
\<close>

definition AddPeer_tx :: "string \<Rightarrow> store \<Rightarrow> error + bool \<times> store" where
  "AddPeer_tx peer st =
     (case (if peer \<in> set (peers st) then (0 :: int, st)
            else (1, st\<lparr>peers := peers st @ [peer]\<rparr>)) of
        (n, st) \<Rightarrow> Inr (if n > 0 then True else False, st))"

definition DB_AddPeer :: "string \<Rightarrow> store \<Rightarrow> (bool \<times> error option) \<times> store" where
  "DB_AddPeer peer st =
     (case with_retry False (AddPeer_tx peer) st of
        (Inl err, st) \<Rightarrow> ((False, Some err), st)
      | (Inr created, st) \<Rightarrow> ((created, None), st))"

text \<open>
  \<open>DB.PeerExists\<close>: the closure returns the error of \<open>Scan\<close>, which is \<open>sql.ErrNoRows\<close>
  when no row matches; that error is turned into \<open>false\<close>.
\<close>

definition PeerExists_tx :: "string \<Rightarrow> store \<Rightarrow> error + unit \<times> store" where
  "PeerExists_tx peer st = (if peer \<in> set (peers st) then Inr ((), st) else Inl ErrNoRows)"

definition DB_PeerExists :: "string \<Rightarrow> store \<Rightarrow> (bool \<times> error option) \<times> store" where
  "DB_PeerExists peer st =
     (case with_retry () (PeerExists_tx peer) st of
        (Inl err, st) \<Rightarrow> if err = ErrNoRows then ((False, None), st) else ((False, Some err), st)
      | (Inr u, st) \<Rightarrow> ((True, None), st))"

text \<open>
  \<open>strings.ToLower\<close> on a string of ASCII characters, which is what a \<open>host:port\<close> string
  is: the letters A to Z are mapped to a to z, byte by byte.
\<close>

definition lower_char :: "char \<Rightarrow> char" where
  "lower_char c =
     (if 65 \<le> (of_char c :: nat) \<and> (of_char c :: nat) \<le> 90 then char_of (of_char c + 32 :: nat)
      else c)"

definition ToLower :: "string \<Rightarrow> string" where
  "ToLower s = map lower_char s"

text \<open>
  server.go, \<open>validateAndAddPeer\<close>, together with the goroutine it starts, up to the test
  \<open>if !created\<close>, run without interleaving.  The first argument is \<open>s.extAddr\<close>, the second
  is \<open>s.client.Ping\<close>.  The result says whether the goroutine went on after that test, that
  is whether a new peer was created.  What follows (notifying the other peers, the full
  sync) is network traffic and is not modelled.
\<close>

definition validateAndAddPeer ::
  "string \<Rightarrow> (string \<Rightarrow> error option) \<Rightarrow> string \<Rightarrow> store \<Rightarrow> bool \<times> store" where
  "validateAndAddPeer extAddr Ping peer st =
     (let peer = ToLower peer
      in if peer = extAddr then (False, st)
         else (case DB_PeerExists peer st of
                 ((exists, Some err), st) \<Rightarrow> (False, st)
               | ((exists, None), st) \<Rightarrow>
                   if exists then (False, st)
                   else (case Ping peer of
                           Some err \<Rightarrow> (False, st)
                         | None \<Rightarrow>
                             (case DB_AddPeer peer st of
                                ((created, Some err), st) \<Rightarrow> (False, st)
                              | ((created, None), st) \<Rightarrow>
                                  if \<not> created then (False, st) else (True, st)))))"


subsection \<open>PendingTxs\<close>

text \<open>
  The temporary table \<open>temp_balances (address PRIMARY KEY, balance)\<close> lives inside the
  transaction: it is a local list of rows.
\<close>

type_synonym temp_balances = "(Address \<times> int) list"

definition validTemporaryTx :: "stdlib \<Rightarrow> SignedTx \<Rightarrow> temp_balances \<Rightarrow> error option" where
  "validTemporaryTx env stx temp =
     (case SignedTx_Valid env stx of
        Some err \<Rightarrow> Some err
      | None \<Rightarrow>
          (let balance = (case map_of temp (Source stx) of None \<Rightarrow> 0 | Some v \<Rightarrow> v)
           in if balance < sint (RequiredBalance stx)
              then Some (InvalidBlockError
                           ''cryptopuff: insufficient balance (%v coins, %v required)'' None)
              else None))"

text \<open>\<open>UPDATE temp_balances SET balance = balance - ? WHERE address = ?\<close>\<close>

definition debit_temp :: "Address \<Rightarrow> int \<Rightarrow> temp_balances \<Rightarrow> temp_balances" where
  "debit_temp a amount temp = map (\<lambda>(a', v). if a' = a then (a', v - amount) else (a', v)) temp"

text \<open>
  \<open>INSERT INTO temp_balances (address, balance) VALUES (?, ?) ON CONFLICT (address) DO
  UPDATE SET balance = balance + excluded.balance\<close>
\<close>

definition credit_temp :: "Address \<Rightarrow> int \<Rightarrow> temp_balances \<Rightarrow> temp_balances" where
  "credit_temp a amount temp =
     (if a \<in> set (map fst temp)
      then map (\<lambda>(a', v). if a' = a then (a', v + amount) else (a', v)) temp
      else temp @ [(a, amount)])"

text \<open>
  \<open>DELETE FROM txs WHERE hash = ? AND NOT EXISTS (SELECT 1 FROM block_txs WHERE tx_hash = ?)
  AND NOT EXISTS (SELECT 1 FROM included_txs WHERE tx_hash = ?)\<close>
\<close>

definition delete_transient_tx :: "Hash \<Rightarrow> store \<Rightarrow> store" where
  "delete_transient_tx h st =
     (if list_ex (\<lambda>(b, t). sql_match t h) (block_txs st) \<or>
         list_ex (\<lambda>(b, t). sql_match t h) (included_txs st)
      then st
      else st\<lparr>txs := filter (\<lambda>t. \<not> sql_match (TxHash t) h) (txs st)\<rparr>)"

text \<open>
  \<open>SELECT tx FROM txs t LEFT JOIN included_txs i ON i.tx_hash = t.hash AND i.block_hash = ?
  WHERE i.tx_hash IS NULL\<close>, in storage order.
\<close>

definition pending_rows :: "store \<Rightarrow> Hash \<Rightarrow> SignedTx list" where
  "pending_rows st tip =
     filter (\<lambda>t. \<not> list_ex (\<lambda>(b, h). sql_match b tip \<and> h = TxHash t) (included_txs st)) (txs st)"

text \<open>\<open>json.Unmarshal(b, &stx)\<close> of a stored row: the hash field is left at its zero value.\<close>

definition json_Unmarshal_SignedTx :: "SignedTx \<Rightarrow> SignedTx" where
  "json_Unmarshal_SignedTx row = json_strip row"

text \<open>
  The loop \<open>for rows.Next()\<close> over the rows selected before the loop, with the slice
  \<open>stxs\<close> built so far.  The result also says whether the rows of the query are still
  open when the loop is left: \<open>rows.Next()\<close> closes them when it finds no further row,
  \<open>break\<close> leaves them open (they are closed by the deferred \<open>rows.Close()\<close>, when the
  closure returns).
\<close>

fun PendingTxs_rows ::
  "stdlib \<Rightarrow> int \<Rightarrow> SignedTx list \<Rightarrow> SignedTx list \<Rightarrow> temp_balances \<Rightarrow> store \<Rightarrow>
   error + SignedTx list \<times> bool \<times> store" where
  "PendingTxs_rows env limit [] stxs temp st = Inr (stxs, False, st)"
| "PendingTxs_rows env limit (row # rest) stxs temp st =
     (let stx = SignedTx_UpdateHash env (json_Unmarshal_SignedTx row)
      in case validTemporaryTx env stx temp of
           Some err \<Rightarrow>
             if is_InvalidBlockError err
             then PendingTxs_rows env limit rest stxs temp (delete_transient_tx (TxHash stx) st)
             else Inl err
         | None \<Rightarrow>
             (let stxs = stxs @ [stx];
                  temp = debit_temp (Source stx) (sint (RequiredBalance stx)) temp;
                  temp = credit_temp (Destination stx) (sint (Amount stx)) temp
              in if int (length stxs) \<ge> limit then Inr (stxs, True, st)
                 else PendingTxs_rows env limit rest stxs temp st))"

text \<open>
  \<open>DROP TABLE temp_balances\<close>, the last statement of the closure.  SQLite refuses to drop
  a table while another statement of the connection is still being read, with
  \<open>SQLITE_LOCKED\<close>; the argument says whether the rows of the query are still open.
\<close>

definition drop_temp_balances :: "bool \<Rightarrow> sqlite_code option" where
  "drop_temp_balances rows_open = (if rows_open then Some ErrLocked else None)"

text \<open>
  The closure of \<open>PendingTxs\<close>: the temporary table is filled with the balances at the tip,
  the loop runs over the pending rows, and the table is dropped; the error of the
  \<open>DROP TABLE\<close> is the error of the closure.
\<close>

definition PendingTxs_tx :: "stdlib \<Rightarrow> Hash \<Rightarrow> int \<Rightarrow> store \<Rightarrow> error + SignedTx list \<times> store" where
  "PendingTxs_tx env tip limit st =
     (let temp = map (\<lambda>((h, a), v). (a, v)) (filter (\<lambda>((h, a), v). sql_match h tip) (balances st));
          rows = pending_rows st tip
      in case PendingTxs_rows env limit rows [] temp st of
           Inl err \<Rightarrow> Inl err
         | Inr (stxs, rows_open, st) \<Rightarrow>
             (case drop_temp_balances rows_open of
                Some code \<Rightarrow> Inl (SqliteError code)
              | None \<Rightarrow> Inr (stxs, st)))"

text \<open>
  \<open>PendingTxs\<close>: the closure runs under \<open>TransactWithRetry\<close>; on an error the result is
  \<open>nil, err\<close>, otherwise the slice that the closure built.
\<close>

definition DB_PendingTxs ::
  "stdlib \<Rightarrow> Hash \<Rightarrow> int \<Rightarrow> store \<Rightarrow> (SignedTx list \<times> error option) \<times> store" where
  "DB_PendingTxs env tip limit st =
     (case with_retry [] (PendingTxs_tx env tip limit) st of
        (Inl err, st) \<Rightarrow> (([], Some err), st)
      | (Inr stxs, st) \<Rightarrow> ((stxs, None), st))"

text \<open>
  The scratch-balance model of the specification: the balance of an address at the tip
  (0 when there is no row), and the effect of one transaction on a balance map: Amount + Fee
  is taken from the source, Amount is given to the destination.
\<close>

definition tip_balance :: "store \<Rightarrow> Hash \<Rightarrow> Address \<Rightarrow> int" where
  "tip_balance st tip a = (case select_balance st tip a of None \<Rightarrow> 0 | Some v \<Rightarrow> v)"

definition apply_tx :: "(Address \<Rightarrow> int) \<Rightarrow> SignedTx \<Rightarrow> Address \<Rightarrow> int" where
  "apply_tx bal t =
     (let bal = bal(Source t := bal (Source t) - (sint (Amount t) + sint (Fee t)))
      in bal(Destination t := bal (Destination t) + sint (Amount t)))"

definition balances_after :: "(Address \<Rightarrow> int) \<Rightarrow> SignedTx list \<Rightarrow> Address \<Rightarrow> int" where
  "balances_after bal stxs = foldl apply_tx bal stxs"

text \<open>\<open>SELECT balance FROM temp_balances WHERE address = ?\<close>, with 0 when there is no row.\<close>

definition bal_of :: "temp_balances \<Rightarrow> Address \<Rightarrow> int" where
  "bal_of temp a = (case map_of temp a of None \<Rightarrow> 0 | Some v \<Rightarrow> v)"

definition pending_store :: store where
  "pending_store = test_store\<lparr>txs := [test_tx]\<rparr>"


subsection \<open>Foreign keys\<close>

text \<open>
  The foreign keys of the schema that concern blocks: every \<open>block_hash\<close> in \<open>balances\<close>,
  \<open>included_txs\<close> and \<open>block_txs\<close> is the hash of a row of \<open>blocks\<close>.
\<close>

definition foreign_keys_hold :: "store \<Rightarrow> bool" where
  "foreign_keys_hold st =
     (list_all (\<lambda>((h, a), v). block_exists st h) (balances st) \<and>
      list_all (\<lambda>(h, t). block_exists st h) (included_txs st) \<and>
      list_all (\<lambda>(h, t). block_exists st h) (block_txs st))"

definition orphan_block :: Block where
  "orphan_block =
     test_block\<lparr>PreviousHash := [0, 0, 3, 3, 3, 3, 3, 3, 3, 3, 3, 3, 3, 3, 3, 3],
                Transactions := [test_tx, test_tx]\<rparr>"

definition twice_block :: Block where
  "twice_block =
     test_block\<lparr>Hash := [0, 0, 1, 66, 174, 0, 0, 0, 0, 0, 0, 0, 0, 0, 0, 0],
                Transactions := [test_tx, test_tx]\<rparr>"

text \<open>The store after \<open>test_block\<close> has been added to \<open>test_store\<close>.\<close>

definition scenario_store :: store where
  "scenario_store =
     \<lparr>blocks = [test_parent, test_block],
      balances = [((Hash test_parent, [0, 0]), 100), ((Hash test_block, [0, 0]), 50),
                  ((Hash test_block, [9, 0]), 40), ((Hash test_block, [8, 0]), 110)],
      included_txs = [(Hash test_block, TxHash test_tx)],
      block_txs = [(Hash test_block, TxHash test_tx)],
      txs = [test_tx], peers = []\<rparr>"


section \<open>Proof-of-work validity\<close>

lemma byte_bits_eq:
  "byte_bits b = [bit b 7, bit b 6, bit b 5, bit b 4, bit b 3, bit b 2, bit b 1, bit b 0]"
  by (simp add: byte_bits_def upt_rec numeral_nat)

lemma length_byte_bits: "length (byte_bits b) = 8"
  by (simp add: byte_bits_eq)

lemma byte_zero_iff: "(b::byte) = 0 \<longleftrightarrow> byte_bits b = replicate 8 False"
proof
  assume "b = 0"
  then show "byte_bits b = replicate 8 False"
    by (simp add: byte_bits_eq numeral_nat)
next
  assume a: "byte_bits b = replicate 8 False"
  have "\<not> bit b n" for n
  proof (cases "n < 8")
    case True
    then have "n \<in> {0, 1, 2, 3, 4, 5, 6, 7}" by auto
    with a show ?thesis
      by (auto simp: byte_bits_eq numeral_nat)
  next
    case False
    then show ?thesis
      by (auto dest: bit_imp_le_length)
  qed
  then show "b = 0"
    by (simp add: bit_eq_iff)
qed

lemma fc_bits: "bit (0xfc::byte) n \<longleftrightarrow> 2 \<le> n \<and> n < 8"
proof -
  have *: "(0xfc::byte) = push_bit 2 (mask 6)"
    by (simp add: mask_eq_exp_minus_1)
  have "bit (push_bit 2 (mask 6) :: byte) n \<longleftrightarrow> 2 \<le> n \<and> n < 8"
    unfolding bit_push_bit_iff bit_mask_iff by auto
  then show ?thesis unfolding * .
qed

lemma and_fc_zero_iff:
  "((b::byte) AND 0xfc = 0) \<longleftrightarrow>
     (\<not> bit b 7 \<and> \<not> bit b 6 \<and> \<not> bit b 5 \<and> \<not> bit b 4 \<and> \<not> bit b 3 \<and> \<not> bit b 2)"
proof -
  have "(b AND 0xfc = 0) \<longleftrightarrow> (\<forall>n. 2 \<le> n \<and> n < 8 \<longrightarrow> \<not> bit b n)"
    unfolding bit_eq_iff[of "b AND 0xfc" 0] bit_and_iff fc_bits by auto
  also have "\<dots> \<longleftrightarrow> (\<forall>n \<in> {2, 3, 4, 5, 6, 7}. \<not> bit b n)"
  proof -
    have "{n::nat. 2 \<le> n \<and> n < 8} = {2, 3, 4, 5, 6, 7}" by auto
    then show ?thesis by blast
  qed
  finally show ?thesis by auto
qed

lemma and_fc_top_bits: "((b::byte) AND 0xfc = 0) \<longleftrightarrow> top_bits_zero 6 b"
  by (simp add: and_fc_zero_iff top_bits_zero_def byte_bits_eq numeral_nat)

lemma take_22_hash_bits:
  "take 22 (hash_bits (a # b # c # rest)) = byte_bits a @ byte_bits b @ take 6 (byte_bits c)"
  by (simp add: hash_bits_def length_byte_bits)

lemma replicate_22: "replicate 22 False = replicate 8 False @ replicate 8 False @ replicate 6 False"
  by (simp add: replicate_add [symmetric])

lemma first_22_bits_iff:
  "first_bits_zero 22 (a # b # c # rest) \<longleftrightarrow> a = 0 \<and> b = 0 \<and> top_bits_zero 6 c"
  unfolding first_bits_zero_def take_22_hash_bits replicate_22 byte_zero_iff top_bits_zero_def
  by (simp add: length_byte_bits)

lemma Hash_cases:
  assumes "is_Hash h"
  obtains a b c rest where "h = a # b # c # rest"
proof -
  from assms have "length h = 16" by (simp add: is_Hash_def md5_Size_def)
  then obtain a h1 where h: "h = a # h1" and "length h1 = 15" by (cases h) auto
  then obtain b h2 where h1: "h1 = b # h2" and "length h2 = 14" by (cases h1) auto
  then obtain c h3 where "h2 = c # h3" by (cases h2) auto
  with h h1 show ?thesis using that by simp
qed

text \<open>
  C1, as amended.  \<open>Hash.Valid\<close> tests bytes 0 and 1 and the mask \<open>0xfc\<close> on byte 2, that is
  the top six bits of byte 2: a hash is PoW-valid if and only if its first 22 bits
  (8 + 8 + 6) are zero, which is the same as bytes 0 and 1 being zero and the top 6 bits of
  byte 2 being zero.
\<close>

theorem Hash_Valid_first_22_bits:
  assumes "is_Hash h"
  shows "(Hash_Valid h \<longleftrightarrow> first_bits_zero 22 h) \<and>
         (Hash_Valid h \<longleftrightarrow> h ! 0 = 0 \<and> h ! 1 = 0 \<and> top_bits_zero 6 (h ! 2))"
proof -
  from assms obtain a b c rest where h: "h = a # b # c # rest"
    by (rule Hash_cases)
  have 2: "(a # b # c # rest) ! 2 = c"
    by (simp add: numeral_2_eq_2)
  show ?thesis
    unfolding h Hash_Valid_def first_22_bits_iff 2
    by (simp add: and_fc_top_bits)
qed

theorem Hash_Valid_first_22_bits_witness:
  "is_Hash pow_example_hash \<and> first_bits_zero 22 pow_example_hash \<and> Hash_Valid pow_example_hash"
proof -
  have h: "is_Hash pow_example_hash"
    by (simp add: is_Hash_def md5_Size_def pow_example_hash_def)
  have b: "first_bits_zero 22 pow_example_hash"
    by (simp add: first_bits_zero_def hash_bits_def byte_bits_eq pow_example_hash_def
        numeral_nat)
  from Hash_Valid_first_22_bits [OF h] b have "Hash_Valid pow_example_hash"
    by blast
  with h b show ?thesis by blast
qed

text \<open>
  C1, as stated, fails: the hash \<open>00 00 20 00 \<dots>\<close> has its first 18 bits zero (bit 18 is
  the first one set) and is rejected by \<open>Hash.Valid\<close>.
\<close>

theorem Hash_Valid_first_18_bits_counterexample:
  "is_Hash pow_18_bit_hash \<and> first_bits_zero 18 pow_18_bit_hash \<and> \<not> Hash_Valid pow_18_bit_hash"
proof -
  have h: "is_Hash pow_18_bit_hash"
    by (simp add: is_Hash_def md5_Size_def pow_18_bit_hash_def)
  have b: "first_bits_zero 18 pow_18_bit_hash"
    by (simp add: first_bits_zero_def hash_bits_def byte_bits_eq pow_18_bit_hash_def
        numeral_nat)
  have "(0x20::byte) AND 0xfc \<noteq> 0"
    by simp
  then have v: "\<not> Hash_Valid pow_18_bit_hash"
    by (simp add: Hash_Valid_def pow_18_bit_hash_def)
  from h b v show ?thesis by blast
qed

section \<open>Big-endian encoding\<close>

lemma unat_byte_of: "unat (ucast (drop_bit k (v::int64)) :: byte) = (unat v div 2 ^ k) mod 256"
proof -
  have "unat (ucast (drop_bit k v) :: byte) = take_bit 8 (unat (drop_bit k v))"
    by (simp only: unsigned_ucast_eq) simp
  also have "\<dots> = (unat v div 2 ^ k) mod 256"
    by (simp only: unat_drop_bit_eq) (simp add: take_bit_eq_mod drop_bit_eq_div)
  finally show ?thesis .
qed

lemma unat_byte_low: "unat (ucast (v::int64) :: byte) = unat v mod 256"
  using unat_byte_of [of 0 v] by simp

lemma horner_step: "(n div (m * 256)) * 256 + (n div m) mod 256 = n div (m::nat)"
  by (simp add: div_mult2_eq)

lemma big_endian_value_int64: "big_endian_value (BigEndian_int64 v) = unat v"
proof -
  define n where "n = unat v"
  have n: "n < 2 ^ 64" using unsigned_less [of v] by (simp add: n_def)
  have top: "(n div 2 ^ 56) mod 256 = n div 2 ^ 56"
    using n by (simp add: less_mult_imp_div_less)
  have s: "(n div (m * 256)) * 256 + (n div m) mod 256 = n div m" for m
    by (rule horner_step)
  have "big_endian_value (BigEndian_int64 v) =
      ((((((n div 2 ^ 56 * 256 + (n div 2 ^ 48) mod 256) * 256 + (n div 2 ^ 40) mod 256) * 256
        + (n div 2 ^ 32) mod 256) * 256 + (n div 2 ^ 24) mod 256) * 256 + (n div 2 ^ 16) mod 256) * 256
        + (n div 2 ^ 8) mod 256) * 256 + n mod 256"
    unfolding big_endian_value_def BigEndian_int64_def foldl.simps unat_byte_of
    unfolding unat_byte_low n_def [symmetric] top
    by (simp only: mult_0 add_0)
  also have "\<dots> = n"
    using s [of "2 ^ 48"] s [of "2 ^ 40"] s [of "2 ^ 32"] s [of "2 ^ 24"] s [of "2 ^ 16"]
      s [of "2 ^ 8"] s [of 1] by simp
  finally show ?thesis by (simp add: n_def)
qed

lemma length_BigEndian_int64: "length (BigEndian_int64 v) = 8"
  by (simp add: BigEndian_int64_def)


section \<open>Overflow detection and transaction validation\<close>

lemma mod_below: "- m \<le> z \<Longrightarrow> z < 0 \<Longrightarrow> z mod (m::int) = z + m"
proof -
  assume a: "- m \<le> z" "z < 0"
  have "z mod m = (z + m) mod m" by simp
  also have "\<dots> = z + m" using a by (intro mod_pos_pos_trivial) auto
  finally show ?thesis .
qed

lemma mod_above: "m \<le> z \<Longrightarrow> z < 2 * m \<Longrightarrow> z mod (m::int) = z - m"
proof -
  assume a: "m \<le> z" "z < 2 * m"
  have "z mod m = (z - m) mod m" by simp
  also have "\<dots> = z - m" using a by (intro mod_pos_pos_trivial) auto
  finally show ?thesis .
qed

lemma wrap_cases:
  fixes M x y :: int
  assumes "- M \<le> x" "x < M" "- M \<le> y" "y < M"
  shows "((x < (x + y + M) mod (2 * M) - M) = (0 < y)) \<longleftrightarrow> (- M \<le> x + y \<and> x + y < M)"
proof -
  consider "x + y < - M" | "- M \<le> x + y \<and> x + y < M" | "M \<le> x + y" by linarith
  then show ?thesis
  proof cases
    case 1
    then have "(x + y + M) mod (2 * M) = x + y + M + 2 * M"
      using assms by (intro mod_below) auto
    then show ?thesis using 1 assms by auto
  next
    case 2
    then have "(x + y + M) mod (2 * M) = x + y + M"
      using assms by (intro mod_pos_pos_trivial) auto
    then show ?thesis using 2 assms by auto
  next
    case 3
    then have "(x + y + M) mod (2 * M) = x + y + M - 2 * M"
      using assms by (intro mod_above) auto
    then show ?thesis using 3 assms by auto
  qed
qed

lemma sint_add64: "sint ((a::int64) + b) = (sint a + sint b + 2 ^ 63) mod (2 * 2 ^ 63) - 2 ^ 63"
proof -
  have "sint (a + b) = signed_take_bit 63 (sint a + sint b)"
    by (simp add: sint_word_ariths)
  also have "\<dots> = take_bit 64 (sint a + sint b + 2 ^ 63) - 2 ^ 63"
    by (simp only: signed_take_bit_eq_take_bit_shift) simp
  also have "take_bit 64 (sint a + sint b + 2 ^ 63) = (sint a + sint b + 2 ^ 63) mod (2 * 2 ^ 63)"
    by (simp only: take_bit_eq_mod) simp
  finally show ?thesis .
qed

lemma sint_bounds64: "- (2 ^ 63) \<le> sint (a::int64)" "sint (a::int64) < 2 ^ 63"
  using sint_ge[of a] sint_lt[of a] by simp_all

lemma Add64_ok_iff: "snd (overflow_Add64 a b) \<longleftrightarrow> fits_int64 (sint a + sint b)"
proof -
  have "snd (overflow_Add64 a b) \<longleftrightarrow> ((sint a < sint (a + b)) = (0 < sint b))"
    by (simp add: overflow_Add64_def Let_def word_sless_alt)
  also have "\<dots> \<longleftrightarrow> (- (2 ^ 63) \<le> sint a + sint b \<and> sint a + sint b < 2 ^ 63)"
    unfolding sint_add64
    by (rule wrap_cases) (rule sint_bounds64)+
  finally show ?thesis by (simp only: fits_int64_def)
qed

lemma ValidAmounts_None_iff:
  "ValidAmounts t = None \<longleftrightarrow>
     0 < sint (Amount t) \<and> 0 \<le> sint (Fee t) \<and> fits_int64 (sint (Fee t) + sint (Amount t))"
proof -
  have ok: "(case overflow_Add64 (Fee t) (Amount t) of (_, ok) \<Rightarrow> P ok) = P (fits_int64 (sint (Fee t) + sint (Amount t)))" for P
    using Add64_ok_iff [of "Fee t" "Amount t"] by (cases "overflow_Add64 (Fee t) (Amount t)") simp
  show ?thesis
    unfolding ValidAmounts_def ok
    by (auto simp: word_sless_alt word_sle_eq)
qed

lemma ValidSignature_None_iff:
  "ValidSignature env s = None \<longleftrightarrow>
     (case ParsePKCS1PublicKey env (PublicKey s) of
         Inl err \<Rightarrow> False
       | Inr k \<Rightarrow>
           (Source s = AddressFromKey env V1 k \<or> Source s = AddressFromKey env V2 k) \<and>
           VerifyPSS env k (md5_Sum env (json_Tx env (Tx.truncate s))) (Signature s) = None)"
  by (auto simp: ValidSignature_def Let_def json_Marshal_Tx_def split: sum.splits option.splits)

lemma SignedTx_Valid_None_iff: "SignedTx_Valid env s = None \<longleftrightarrow> SignedTx_rules env s"
proof -
  have "SignedTx_Valid env s = None \<longleftrightarrow> ValidAmounts s = None \<and> ValidSignature env s = None"
    by (simp add: SignedTx_Valid_def split: option.splits)
  then show ?thesis
    unfolding ValidAmounts_None_iff ValidSignature_None_iff SignedTx_rules_def by blast
qed

lemma SignedTx_Valid_error: "SignedTx_Valid env s = Some e \<Longrightarrow> is_InvalidBlockError e"
  by (auto simp: SignedTx_Valid_def split: option.splits)

lemma Valid_range_None_iff: "Valid_range env ts = None \<longleftrightarrow> list_all (SignedTx_rules env) ts"
proof (induction ts)
  case Nil
  show ?case by simp
next
  case (Cons t ts)
  show ?case
  proof (cases "SignedTx_Valid env t")
    case None
    with Cons show ?thesis
      using SignedTx_Valid_None_iff [of env t] by simp
  next
    case (Some e)
    then have "\<not> SignedTx_rules env t"
      using SignedTx_Valid_None_iff [of env t] by simp
    with Some show ?thesis by simp
  qed
qed

lemma Valid_range_error: "Valid_range env ts = Some e \<Longrightarrow> is_InvalidBlockError e"
  by (induction ts) (auto dest: SignedTx_Valid_error split: option.splits)

lemma reward_range:
  "\<not> (a <s 0 \<or> word_of_int MaxBlockReward <s a) \<longleftrightarrow> 0 \<le> sint (a::int64) \<and> sint a \<le> 1000"
proof -
  have "sint (word_of_int 1000 :: int64) = 1000"
    by simp
  then show ?thesis
    by (auto simp: word_sless_alt MaxBlockReward_def)
qed

lemma Block_Valid_None_iff: "Block_Valid env b p = None \<longleftrightarrow> Block_rules env b p"
  unfolding Block_Valid_def Block_rules_def
  using reward_range [of "Amount (RewardOutput b)"]
  by (auto simp: Valid_range_None_iff MaxTransactionsPerBlock_def)

lemma Block_Valid_error: "Block_Valid env b p = Some e \<Longrightarrow> is_InvalidBlockError e"
  by (auto simp: Block_Valid_def dest: Valid_range_error split: if_splits)


section \<open>Block hash, transaction rules and block rules\<close>

text \<open>
  C2.  \<open>UpdateHash\<close> sets the block hash to the MD5 of
  PreviousHash, Height, Nonce, the length of the reward destination, the reward destination,
  the reward amount and the hash of the transaction list, concatenated in that order; the
  four integers are written as 8 bytes whose big-endian value is the (unsigned reading of
  the) 64-bit integer, and the transaction-list hash is the MD5 of the JSON encoding of the
  transactions.
\<close>

theorem UpdateHash_Hash:
  "Hash (UpdateHash env b) =
     md5_Sum env
       (PreviousHash b @ BigEndian_int64 (Height b) @ BigEndian_int64 (Nonce b) @
        BigEndian_int64 (of_nat (length (Destination (RewardOutput b)))) @
        Destination (RewardOutput b) @ BigEndian_int64 (Amount (RewardOutput b)) @
        md5_Sum env (json_Marshal_SignedTxs env (Transactions b))) \<and>
   (\<forall>v. length (BigEndian_int64 v) = 8 \<and> big_endian_value (BigEndian_int64 v) = unat v)"
  by (simp add: UpdateHash_def Let_def md5_New_def hash_Write_def binary_Write_def hash_Sum_def
      big_endian_value_int64 length_BigEndian_int64)

text \<open>
  C3.  \<open>SignedTx.Valid\<close> returns nil exactly when the amount is positive, the fee is not
  negative, fee plus amount stays within the signed 64-bit range, the declared source is the
  V1 or the V2 address of the included public key (which therefore has to parse), and the
  RSA-PSS signature verifies over the MD5 of the encoding of the unsigned transaction.
  Every error it returns is an \<open>InvalidBlockError\<close>.
\<close>

theorem SignedTx_Valid_iff_rules:
  "(SignedTx_Valid env s = None \<longleftrightarrow> SignedTx_rules env s) \<and>
   (\<forall>e. SignedTx_Valid env s = Some e \<longrightarrow> is_InvalidBlockError e)"
  using SignedTx_Valid_None_iff SignedTx_Valid_error by blast

lemma test_tx_rules: "SignedTx_rules test_stdlib test_tx"
  by (simp add: SignedTx_rules_def test_tx_def test_stdlib_def fits_int64_def AddressFromKey_def
      Tx.truncate_def test_signature_def)

lemma test_tx_zero_amount: "\<not> SignedTx_rules test_stdlib (test_tx\<lparr>Amount := 0\<rparr>)"
  by (simp add: SignedTx_rules_def test_tx_def)

theorem SignedTx_Valid_iff_rules_witness:
  "SignedTx_rules test_stdlib test_tx \<and> SignedTx_Valid test_stdlib test_tx = None \<and>
   (\<exists>e. SignedTx_Valid test_stdlib (test_tx\<lparr>Amount := 0\<rparr>) = Some e \<and> is_InvalidBlockError e)"
proof -
  have 1: "SignedTx_Valid test_stdlib test_tx = None"
    using SignedTx_Valid_iff_rules [of test_stdlib test_tx] test_tx_rules by blast
  have "SignedTx_Valid test_stdlib (test_tx\<lparr>Amount := 0\<rparr>) \<noteq> None"
    using SignedTx_Valid_iff_rules [of test_stdlib "test_tx\<lparr>Amount := 0\<rparr>"] test_tx_zero_amount
    by blast
  then obtain e where e: "SignedTx_Valid test_stdlib (test_tx\<lparr>Amount := 0\<rparr>) = Some e"
    by blast
  then have "is_InvalidBlockError e"
    using SignedTx_Valid_iff_rules [of test_stdlib "test_tx\<lparr>Amount := 0\<rparr>"] by blast
  with 1 e test_tx_rules show ?thesis by blast
qed

text \<open>
  C4.  \<open>Block.Valid\<close> returns nil exactly when the previous hash is the parent's hash, the
  height is the parent's height plus one (in \<open>int64\<close> arithmetic, as the code computes it),
  the block hash passes \<open>Hash.Valid\<close>, the reward amount lies between 0 and 1000, there are
  at most 100 transactions and every transaction satisfies the SignedTx rules.  Every error
  it returns is an \<open>InvalidBlockError\<close>.
\<close>

theorem Block_Valid_iff_rules:
  "(Block_Valid env b p = None \<longleftrightarrow> Block_rules env b p) \<and>
   (\<forall>e. Block_Valid env b p = Some e \<longrightarrow> is_InvalidBlockError e)"
  using Block_Valid_None_iff Block_Valid_error by blast

lemma test_block_rules: "Block_rules test_stdlib test_block test_parent"
  by (simp add: Block_rules_def test_block_def test_parent_def Hash_Valid_def test_tx_rules)

lemma test_block_bad_height: "\<not> Block_rules test_stdlib (test_block\<lparr>Height := 7\<rparr>) test_parent"
  by (simp add: Block_rules_def test_block_def test_parent_def)

theorem Block_Valid_iff_rules_witness:
  "Block_rules test_stdlib test_block test_parent \<and>
   Block_Valid test_stdlib test_block test_parent = None \<and>
   (\<exists>e. Block_Valid test_stdlib (test_block\<lparr>Height := 7\<rparr>) test_parent = Some e \<and>
        is_InvalidBlockError e)"
proof -
  have 1: "Block_Valid test_stdlib test_block test_parent = None"
    using Block_Valid_iff_rules [of test_stdlib test_block test_parent] test_block_rules by blast
  have "Block_Valid test_stdlib (test_block\<lparr>Height := 7\<rparr>) test_parent \<noteq> None"
    using Block_Valid_iff_rules [of test_stdlib "test_block\<lparr>Height := 7\<rparr>" test_parent]
      test_block_bad_height by blast
  then obtain e where e: "Block_Valid test_stdlib (test_block\<lparr>Height := 7\<rparr>) test_parent = Some e"
    by blast
  then have "is_InvalidBlockError e"
    using Block_Valid_iff_rules [of test_stdlib "test_block\<lparr>Height := 7\<rparr>" test_parent] by blast
  with 1 e test_block_rules show ?thesis by blast
qed


section \<open>Retrying transactions\<close>

lemma retry_loop_stop:
  assumes "i < tries d" "Transact d f w = (r, w1)"
    and "case r of None \<Rightarrow> True | Some e \<Rightarrow> \<not> isDeadlock d e"
  shows "retry_loop d f i err w = (r, w1)"
  using assms by (cases r) (simp_all add: retry_loop.simps)

lemma retry_loop_last:
  assumes "i = tries d - 1" "Transact d f w = (Some e, w1)" "isDeadlock d e"
  shows "retry_loop d f i err w = (Some (TxError (Some e) (tries d)), w1)"
proof -
  have "retry_loop d f i err w = retry_loop d f (i + 1) (Some e) w1"
    using assms by (subst retry_loop.simps) simp
  also have "\<dots> = (Some (TxError (Some e) (tries d)), w1)"
    using assms(1) by (subst retry_loop.simps) simp
  finally show ?thesis .
qed

lemma retry_loop_again:
  assumes "i < tries d - 1" "Transact d f w = (Some e, w1)" "isDeadlock d e"
    and "backoff d i w1 = (duration, w2)"
  shows "retry_loop d f i err w = retry_loop d f (i + 1) (Some e) (time_Sleep d duration w2)"
  using assms by (subst retry_loop.simps) simp

lemma retry_loop_attempts:
  assumes "int k < tries d" "\<forall>j<k. attempt_deadlocks d f w j"
  shows "\<exists>err. retry_loop d f 0 None w = retry_loop d f (int k) err (attempt_world d f k w)"
  using assms
proof (induction k)
  case 0
  show ?case by (intro exI [of _ None]) simp
next
  case (Suc k)
  then obtain err where
    IH: "retry_loop d f 0 None w = retry_loop d f (int k) err (attempt_world d f k w)"
    by auto
  from Suc.prems have dl: "attempt_deadlocks d f w k" by simp
  obtain r w1 where t: "Transact d f (attempt_world d f k w) = (r, w1)"
    by (cases "Transact d f (attempt_world d f k w)")
  with dl obtain e where r: "r = Some e" and e: "isDeadlock d e"
    by (auto simp: attempt_deadlocks_def split: option.splits)
  obtain duration w2 where b: "backoff d (int k) w1 = (duration, w2)"
    by (cases "backoff d (int k) w1")
  have "retry_loop d f (int k) err (attempt_world d f k w) =
        retry_loop d f (int k + 1) (Some e) (time_Sleep d duration w2)"
    using Suc.prems(1) t r e b by (intro retry_loop_again) auto
  also have "time_Sleep d duration w2 = attempt_world d f (Suc k) w"
    using t b by simp
  finally show ?case
    using IH by (intro exI [of _ "Some e"]) (simp add: add.commute)
qed

lemma TransactWithRetry_verbatim:
  assumes "int k < tries d" "\<forall>j<k. attempt_deadlocks d f w j"
    and "Transact d f (attempt_world d f k w) = (r, w')"
    and "case r of None \<Rightarrow> True | Some e \<Rightarrow> \<not> isDeadlock d e"
  shows "TransactWithRetry d f w = (r, w')"
proof -
  from retry_loop_attempts [OF assms(1,2)] obtain err where
    "retry_loop d f 0 None w = retry_loop d f (int k) err (attempt_world d f k w)" ..
  also have "\<dots> = (r, w')"
    using assms by (intro retry_loop_stop) auto
  finally show ?thesis
    using assms(1) by (simp add: TransactWithRetry_def)
qed

lemma TransactWithRetry_exhausted:
  assumes "1 \<le> tries d" "\<forall>j. int j < tries d \<longrightarrow> attempt_deadlocks d f w j"
    and "Transact d f (attempt_world d f (nat (tries d) - 1) w) = (Some e, w')"
  shows "TransactWithRetry d f w = (Some (TxError (Some e) (tries d)), w')"
proof -
  define k where "k = nat (tries d) - 1"
  have k: "int k = tries d - 1" using assms(1) by (simp add: k_def)
  then have lt: "int k < tries d" by simp
  have "\<forall>j<k. attempt_deadlocks d f w j"
    using assms(2) k by auto
  from retry_loop_attempts [OF lt this] obtain err where
    "retry_loop d f 0 None w = retry_loop d f (int k) err (attempt_world d f k w)" ..
  also have "\<dots> = (Some (TxError (Some e) (tries d)), w')"
  proof (rule retry_loop_last)
    show "int k = tries d - 1" by (rule k)
    show "Transact d f (attempt_world d f k w) = (Some e, w')"
      using assms(3) by (simp add: k_def)
    show "isDeadlock d e"
      using assms(2) [rule_format, OF lt] assms(3)
      by (simp add: attempt_deadlocks_def k_def)
  qed
  finally show ?thesis
    using assms(1) by (simp add: TransactWithRetry_def)
qed

lemma Transact_rollback:
  assumes "sql_Begin d w = (None, w1)" "f w1 = (Some e, w2)"
  shows "Transact d f w =
     (Some e, case sql_Rollback d w2 of
                (None, w3) \<Rightarrow> w3
              | (Some rerr, w3) \<Rightarrow> logger_Printf d ''database: rollback failed: %s'' w3)"
  using assms by (simp add: Transact_def split: prod.splits option.splits)

lemma Open_default_tries:
  "\<exists>db. Open None None sqlDB rnd dl [] = Inr db \<and> tries db = 3 \<and> isDeadlock db = dl"
  by (simp add: Open_def)


lemma script_Transact_fail:
  "Transact (script_DB n b dl) script_f \<lparr>script = Some e # rest, trace = t\<rparr> =
     (Some e, \<lparr>script = rest, trace = t @ [EvBegin, EvRun, EvRollback]\<rparr>)"
  by (simp add: Transact_def script_DB_def script_f_def emit_def)

lemma script_Transact_ok:
  "Transact (script_DB n b dl) script_f \<lparr>script = None # rest, trace = t\<rparr> =
     (None, \<lparr>script = rest, trace = t @ [EvBegin, EvRun, EvCommit]\<rparr>)"
  by (simp add: Transact_def script_DB_def script_f_def emit_def)

lemma script_attempt_Suc:
  assumes "attempt_world (script_DB n b dl) script_f k w = \<lparr>script = Some e # rest, trace = t\<rparr>"
  shows "attempt_world (script_DB n b dl) script_f (Suc k) w =
     \<lparr>script = rest, trace = t @ [EvBegin, EvRun, EvRollback, EvSleep (b (int k))]\<rparr>"
  using assms by (simp add: script_Transact_fail) (simp add: script_DB_def emit_def)

text \<open>
  C7.  With at least one try configured, \<open>TransactWithRetry\<close> behaves as follows for every
  closure and every world.  If attempts \<open>0 \<dots> k-1\<close> failed with errors the injected predicate
  classifies as deadlock (each followed by the backoff sleep for its index) and attempt
  \<open>k < tries\<close> succeeds or fails with an error that is not classified as deadlock, that result
  is returned as it is.  If all \<open>tries\<close> attempts fail with deadlock-classified errors, the
  result is the \<open>TxError\<close> holding the last error and the number of tries, and no sleep
  follows the last attempt.  Within one attempt an error of the closure is followed by a
  rollback (whose own failure is only logged) and is the error of the attempt.  A handle
  opened without options has 3 tries and the injected predicate.
\<close>

theorem TransactWithRetry_attempts:
  assumes "1 \<le> tries d"
  shows "(\<forall>k r w'. int k < tries d \<and> (\<forall>j<k. attempt_deadlocks d f w j) \<and>
            Transact d f (attempt_world d f k w) = (r, w') \<and>
            (case r of None \<Rightarrow> True | Some e \<Rightarrow> \<not> isDeadlock d e) \<longrightarrow>
            TransactWithRetry d f w = (r, w')) \<and>
         (\<forall>e w'. (\<forall>j. int j < tries d \<longrightarrow> attempt_deadlocks d f w j) \<and>
            Transact d f (attempt_world d f (nat (tries d) - 1) w) = (Some e, w') \<longrightarrow>
            TransactWithRetry d f w = (Some (TxError (Some e) (tries d)), w')) \<and>
         (\<forall>w1 e w2. sql_Begin d w = (None, w1) \<and> f w1 = (Some e, w2) \<longrightarrow>
            Transact d f w =
              (Some e, case sql_Rollback d w2 of
                         (None, w3) \<Rightarrow> w3
                       | (Some rerr, w3) \<Rightarrow> logger_Printf d ''database: rollback failed: %s'' w3)) \<and>
         (\<forall>sqlDB rnd dl. \<exists>db. Open None None sqlDB rnd dl [] = Inr db \<and> tries db = 3 \<and> isDeadlock db = dl)"
proof (intro conjI allI impI)
  fix k r w'
  assume "int k < tries d \<and> (\<forall>j<k. attempt_deadlocks d f w j) \<and>
            Transact d f (attempt_world d f k w) = (r, w') \<and>
            (case r of None \<Rightarrow> True | Some e \<Rightarrow> \<not> isDeadlock d e)"
  then show "TransactWithRetry d f w = (r, w')"
    by (intro TransactWithRetry_verbatim [of k]) auto
next
  fix e w'
  assume "(\<forall>j. int j < tries d \<longrightarrow> attempt_deadlocks d f w j) \<and>
            Transact d f (attempt_world d f (nat (tries d) - 1) w) = (Some e, w')"
  then show "TransactWithRetry d f w = (Some (TxError (Some e) (tries d)), w')"
    using assms by (intro TransactWithRetry_exhausted) auto
next
  fix w1 e w2
  assume "sql_Begin d w = (None, w1) \<and> f w1 = (Some e, w2)"
  then show "Transact d f w =
              (Some e, case sql_Rollback d w2 of
                         (None, w3) \<Rightarrow> w3
                       | (Some rerr, w3) \<Rightarrow> logger_Printf d ''database: rollback failed: %s'' w3)"
    by (intro Transact_rollback) auto
next
  fix sqlDB :: "'b DB" and rnd dl
  show "\<exists>db. Open None None sqlDB rnd dl [] = Inr db \<and> tries db = 3 \<and> isDeadlock db = dl"
    by (rule Open_default_tries)
qed

lemma busy_attempts:
  "attempt_world busy_DB script_f 0 busy_world = \<lparr>script = busy_script, trace = []\<rparr>"
  "attempt_world busy_DB script_f (Suc 0) busy_world =
     \<lparr>script = [Some (SqliteError ErrLocked), Some (SqliteError ErrBusy)],
      trace = [EvBegin, EvRun, EvRollback, EvSleep 10]\<rparr>"
  "attempt_world busy_DB script_f (Suc (Suc 0)) busy_world =
     \<lparr>script = [Some (SqliteError ErrBusy)],
      trace = [EvBegin, EvRun, EvRollback, EvSleep 10, EvBegin, EvRun, EvRollback, EvSleep 11]\<rparr>"
proof -
  show 0: "attempt_world busy_DB script_f 0 busy_world = \<lparr>script = busy_script, trace = []\<rparr>"
    by (simp add: busy_world_def)
  show 1: "attempt_world busy_DB script_f (Suc 0) busy_world =
     \<lparr>script = [Some (SqliteError ErrLocked), Some (SqliteError ErrBusy)],
      trace = [EvBegin, EvRun, EvRollback, EvSleep 10]\<rparr>"
    unfolding busy_DB_def
    by (subst script_attempt_Suc [OF 0 [unfolded busy_DB_def busy_script_def]]) simp
  show "attempt_world busy_DB script_f (Suc (Suc 0)) busy_world =
     \<lparr>script = [Some (SqliteError ErrBusy)],
      trace = [EvBegin, EvRun, EvRollback, EvSleep 10, EvBegin, EvRun, EvRollback, EvSleep 11]\<rparr>"
    unfolding busy_DB_def
    by (subst script_attempt_Suc [OF 1 [unfolded busy_DB_def]]) simp
qed

lemma busy_deadlocks: "int j < 3 \<Longrightarrow> attempt_deadlocks busy_DB script_f busy_world j"
proof -
  assume "int j < 3"
  then consider "j = 0" | "j = Suc 0" | "j = Suc (Suc 0)" by linarith
  then show ?thesis
  proof cases
    case 1
    show ?thesis unfolding 1 attempt_deadlocks_def busy_attempts
      by (simp add: busy_DB_def busy_script_def script_Transact_fail)
        (simp add: script_DB_def sqlite_isDeadlock_def)
  next
    case 2
    show ?thesis unfolding 2 attempt_deadlocks_def busy_attempts
      by (simp add: busy_DB_def busy_script_def script_Transact_fail)
        (simp add: script_DB_def sqlite_isDeadlock_def)
  next
    case 3
    show ?thesis unfolding 3 attempt_deadlocks_def busy_attempts
      by (simp add: busy_DB_def busy_script_def script_Transact_fail)
        (simp add: script_DB_def sqlite_isDeadlock_def)
  qed
qed

lemma mixed_attempts:
  "attempt_world busy_DB script_f 0 mixed_world =
     \<lparr>script = [Some (SqliteError ErrBusy), Some ErrUnknownParent], trace = []\<rparr>"
  "attempt_world busy_DB script_f (Suc 0) mixed_world =
     \<lparr>script = [Some ErrUnknownParent], trace = [EvBegin, EvRun, EvRollback, EvSleep 10]\<rparr>"
proof -
  show 0: "attempt_world busy_DB script_f 0 mixed_world =
     \<lparr>script = [Some (SqliteError ErrBusy), Some ErrUnknownParent], trace = []\<rparr>"
    by (simp add: mixed_world_def)
  show "attempt_world busy_DB script_f (Suc 0) mixed_world =
     \<lparr>script = [Some ErrUnknownParent], trace = [EvBegin, EvRun, EvRollback, EvSleep 10]\<rparr>"
    unfolding busy_DB_def
    by (subst script_attempt_Suc [OF 0 [unfolded busy_DB_def]]) simp
qed

theorem TransactWithRetry_attempts_witness:
  "1 \<le> tries busy_DB \<and>
   TransactWithRetry busy_DB script_f busy_world =
     (Some (TxError (Some (SqliteError ErrBusy)) 3),
      \<lparr>script = [],
       trace = [EvBegin, EvRun, EvRollback, EvSleep 10, EvBegin, EvRun, EvRollback, EvSleep 11,
                EvBegin, EvRun, EvRollback]\<rparr>) \<and>
   TransactWithRetry busy_DB script_f mixed_world =
     (Some ErrUnknownParent,
      \<lparr>script = [],
       trace = [EvBegin, EvRun, EvRollback, EvSleep 10, EvBegin, EvRun, EvRollback]\<rparr>) \<and>
   Transact busy_DB script_f busy_world =
     (Some (SqliteError ErrBusy),
      \<lparr>script = [Some (SqliteError ErrLocked), Some (SqliteError ErrBusy)],
       trace = [EvBegin, EvRun, EvRollback]\<rparr>)"
proof -
  have t: "tries busy_DB = 3"
    by (simp add: busy_DB_def script_DB_def)
  then have 1: "1 \<le> tries busy_DB" by simp
  have n: "nat (tries busy_DB) - 1 = Suc (Suc 0)"
    by (simp add: t)
  have last: "Transact busy_DB script_f (attempt_world busy_DB script_f (nat (tries busy_DB) - 1) busy_world) =
      (Some (SqliteError ErrBusy),
       \<lparr>script = [],
        trace = [EvBegin, EvRun, EvRollback, EvSleep 10, EvBegin, EvRun, EvRollback, EvSleep 11,
                 EvBegin, EvRun, EvRollback]\<rparr>)"
    unfolding n busy_attempts by (simp add: busy_DB_def script_Transact_fail)
  have dl: "\<forall>j. int j < tries busy_DB \<longrightarrow> attempt_deadlocks busy_DB script_f busy_world j"
    using busy_deadlocks by (simp add: t)
  from TransactWithRetry_attempts [OF 1, of script_f busy_world] dl last
  have a: "TransactWithRetry busy_DB script_f busy_world =
     (Some (TxError (Some (SqliteError ErrBusy)) (tries busy_DB)),
      \<lparr>script = [],
       trace = [EvBegin, EvRun, EvRollback, EvSleep 10, EvBegin, EvRun, EvRollback, EvSleep 11,
                EvBegin, EvRun, EvRollback]\<rparr>)"
    by blast
  have k: "int (Suc 0) < tries busy_DB"
    by (simp add: t)
  have "Transact busy_DB script_f (attempt_world busy_DB script_f 0 mixed_world) =
      (Some (SqliteError ErrBusy),
       \<lparr>script = [Some ErrUnknownParent], trace = [EvBegin, EvRun, EvRollback]\<rparr>)"
    unfolding mixed_attempts by (simp add: busy_DB_def script_Transact_fail)
  then have "attempt_deadlocks busy_DB script_f mixed_world 0"
    by (simp add: attempt_deadlocks_def busy_DB_def script_DB_def sqlite_isDeadlock_def)
  then have d0: "\<forall>j<Suc 0. attempt_deadlocks busy_DB script_f mixed_world j"
    by simp
  have second: "Transact busy_DB script_f (attempt_world busy_DB script_f (Suc 0) mixed_world) =
      (Some ErrUnknownParent,
       \<lparr>script = [],
        trace = [EvBegin, EvRun, EvRollback, EvSleep 10, EvBegin, EvRun, EvRollback]\<rparr>)"
    unfolding mixed_attempts by (simp add: busy_DB_def script_Transact_fail)
  have nd: "case Some ErrUnknownParent of None \<Rightarrow> True | Some e \<Rightarrow> \<not> isDeadlock busy_DB e"
    by (simp add: busy_DB_def script_DB_def sqlite_isDeadlock_def)
  from TransactWithRetry_attempts [OF 1, of script_f mixed_world] k d0 second nd
  have b: "TransactWithRetry busy_DB script_f mixed_world =
     (Some ErrUnknownParent,
      \<lparr>script = [],
       trace = [EvBegin, EvRun, EvRollback, EvSleep 10, EvBegin, EvRun, EvRollback]\<rparr>)"
    by blast
  have bg: "sql_Begin busy_DB busy_world = (None, emit EvBegin busy_world)"
    by (simp add: busy_DB_def script_DB_def)
  have run: "script_f (emit EvBegin busy_world) =
      (Some (SqliteError ErrBusy),
       \<lparr>script = [Some (SqliteError ErrLocked), Some (SqliteError ErrBusy)],
        trace = [EvBegin, EvRun]\<rparr>)"
    by (simp add: script_f_def emit_def busy_world_def busy_script_def)
  from TransactWithRetry_attempts [OF 1, of script_f busy_world] bg run
  have "Transact busy_DB script_f busy_world =
     (Some (SqliteError ErrBusy),
      case sql_Rollback busy_DB
             \<lparr>script = [Some (SqliteError ErrLocked), Some (SqliteError ErrBusy)],
              trace = [EvBegin, EvRun]\<rparr> of
        (None, w3) \<Rightarrow> w3
      | (Some rerr, w3) \<Rightarrow> logger_Printf busy_DB ''database: rollback failed: %s'' w3)"
    by blast
  then have c: "Transact busy_DB script_f busy_world =
     (Some (SqliteError ErrBusy),
      \<lparr>script = [Some (SqliteError ErrLocked), Some (SqliteError ErrBusy)],
       trace = [EvBegin, EvRun, EvRollback]\<rparr>)"
    by (simp add: busy_DB_def script_DB_def emit_def)
  from 1 t a b c show ?thesis by simp
qed


section \<open>Store transactions and the errors of the store functions\<close>

lemma store_DB_fields:
  "tries store_DB = 3" "isDeadlock store_DB = sqlite_isDeadlock"
  "sql_Begin store_DB = (\<lambda>w. (None, w\<lparr>working := durable w\<rparr>))"
  "sql_Commit store_DB = (\<lambda>w. (None, w\<lparr>durable := working w\<rparr>))"
  "sql_Rollback store_DB = (\<lambda>w. (None, w\<lparr>working := durable w\<rparr>))"
  by (simp_all add: store_DB_def Open_def store_sqlDB_def)

lemma Transact_store_error:
  assumes "g st = Inl err"
  shows "Transact store_DB (tx_closure g) \<lparr>durable = st, working = st, captured = r0\<rparr> =
           (Some err, \<lparr>durable = st, working = st, captured = r0\<rparr>)"
  using assms by (simp add: Transact_def store_DB_fields tx_closure_def)

lemma Transact_store_ok:
  assumes "g st = Inr (r, st')"
  shows "Transact store_DB (tx_closure g) \<lparr>durable = st, working = st, captured = r0\<rparr> =
           (None, \<lparr>durable = st', working = st', captured = r\<rparr>)"
  using assms by (simp add: Transact_def store_DB_fields tx_closure_def)

lemma with_retry_error:
  assumes "g st = Inl err" "\<not> sqlite_isDeadlock err"
  shows "with_retry r0 g st = (Inl err, st)"
proof -
  have "TransactWithRetry store_DB (tx_closure g) \<lparr>durable = st, working = st, captured = r0\<rparr> =
          (Some err, \<lparr>durable = st, working = st, captured = r0\<rparr>)"
    by (rule TransactWithRetry_verbatim [of 0])
      (simp_all add: store_DB_fields Transact_store_error [of g st err r0, OF assms(1)] assms(2))
  then show ?thesis by (simp add: with_retry_def)
qed

lemma with_retry_ok:
  assumes "g st = Inr (r, st')"
  shows "with_retry r0 g st = (Inr r, st')"
proof -
  have "TransactWithRetry store_DB (tx_closure g) \<lparr>durable = st, working = st, captured = r0\<rparr> =
          (None, \<lparr>durable = st', working = st', captured = r\<rparr>)"
    by (rule TransactWithRetry_verbatim [of 0])
      (simp_all add: store_DB_fields Transact_store_ok [of g st r st' r0, OF assms(1)])
  then show ?thesis by (simp add: with_retry_def)
qed

lemma store_error_not_deadlock: "store_error err \<Longrightarrow> \<not> sqlite_isDeadlock err"
  by (cases err) (auto simp: sqlite_isDeadlock_def)

lemma is_InvalidBlockError_store_error: "is_InvalidBlockError err \<Longrightarrow> store_error err"
  by (cases err) auto

lemma insert_included_code:
  "insert_included h t st = Inl code \<Longrightarrow> code = ErrConstraintPrimaryKey \<or> code = ErrConstraintNotNull"
  by (auto simp: insert_included_def split: if_splits)

lemma insert_block_tx_code:
  "insert_block_tx h t st = Inl code \<Longrightarrow> code = ErrConstraintPrimaryKey \<or> code = ErrConstraintNotNull"
  by (auto simp: insert_block_tx_def split: if_splits)

lemma insert_block_code:
  "insert_block b st = Inl code \<Longrightarrow> code = ErrConstraintPrimaryKey \<or> code = ErrConstraintNotNull"
  by (auto simp: insert_block_def split: if_splits)

lemma copy_balances_code: "copy_balances n p st = Inl code \<Longrightarrow> code = ErrConstraintPrimaryKey"
  by (auto simp: copy_balances_def Let_def split: if_splits)

lemma copy_included_code: "copy_included n p st = Inl code \<Longrightarrow> code = ErrConstraintPrimaryKey"
  by (auto simp: copy_included_def Let_def split: if_splits)

lemma validTx_error: "validTx env stx tip st = Some err \<Longrightarrow> is_InvalidBlockError err"
  by (auto simp: validTx_def Let_def dest: SignedTx_Valid_error split: option.splits if_splits)

lemma addBlock_range_error:
  "addBlock_range env block stxs fee st = Inl err \<Longrightarrow> store_error err"
proof (induction stxs arbitrary: fee st)
  case Nil
  then show ?case by simp
next
  case (Cons stx rest)
  show ?case
  proof (cases "validTx env stx (Hash block) st")
    case (Some e)
    with Cons.prems have "err = e" by (simp add: Let_def)
    with Some show ?thesis
      by (auto dest!: validTx_error is_InvalidBlockError_store_error)
  next
    case None
    define st1 where "st1 = addTx stx (credit_balance (Hash block) (Destination stx) (sint (Amount stx))
        (debit_balance (Hash block) (Source stx) (sint (RequiredBalance stx)) st))"
    show ?thesis
    proof (cases "insert_included (Hash block) (TxHash stx) st1")
      case (Inl code)
      with Cons.prems None have "err = SqliteError code"
        by (simp add: Let_def st1_def)
      with insert_included_code [OF Inl] show ?thesis by auto
    next
      case (Inr st2)
      note i2 = Inr
      show ?thesis
      proof (cases "insert_block_tx (Hash block) (TxHash stx) st2")
        case (Inl code)
        with Cons.prems None i2 have "err = SqliteError code"
          by (simp add: Let_def st1_def)
        with insert_block_tx_code [OF Inl] show ?thesis by auto
      next
        case (Inr st3)
        with Cons.prems None i2 have "addBlock_range env block rest (fee + Fee stx) st3 = Inl err"
          by (simp add: Let_def st1_def)
        then show ?thesis by (rule Cons.IH)
      qed
    qed
  qed
qed

lemma addBlock_error: "addBlock env block st = Inl err \<Longrightarrow> store_error err"
  unfolding addBlock_def Let_def
  by (auto split: option.splits sum.splits if_splits prod.splits
      dest: insert_block_code copy_balances_code copy_included_code addBlock_range_error
        Block_Valid_error is_InvalidBlockError_store_error)


section \<open>AddBlock and AddBlocks\<close>

lemma error_of_with_retry:
  assumes "\<And>err. g st = Inl err \<Longrightarrow> store_error err"
  shows "error_of (with_retry () (\<lambda>tx. no_result (g tx)) st) =
           (case g st of Inl err \<Rightarrow> (Some err, st) | Inr st' \<Rightarrow> (None, st'))"
proof (cases "g st")
  case (Inl err)
  then have "\<not> sqlite_isDeadlock err"
    using assms store_error_not_deadlock by blast
  moreover have "no_result (g st) = Inl err"
    using Inl by (simp add: no_result_def)
  ultimately have "with_retry () (\<lambda>tx. no_result (g tx)) st = (Inl err, st)"
    by (intro with_retry_error) auto
  with Inl show ?thesis by (simp add: error_of_def)
next
  case (Inr st')
  then have "no_result (g st) = Inr ((), st')"
    by (simp add: no_result_def)
  then have "with_retry () (\<lambda>tx. no_result (g tx)) st = (Inr (), st')"
    by (intro with_retry_ok) auto
  with Inr show ?thesis by (simp add: error_of_def)
qed

lemma DB_AddBlock_eq:
  "DB_AddBlock env block st =
     (case addBlock env block st of Inl err \<Rightarrow> (Some err, st) | Inr st' \<Rightarrow> (None, st'))"
  unfolding DB_AddBlock_def
  by (rule error_of_with_retry) (rule addBlock_error)

lemma block_exists_select: "block_exists st h \<longleftrightarrow> select_block st h \<noteq> None"
  by (auto simp: block_exists_def select_block_def list_ex_iff find_None_iff)

lemma addBlock_stored:
  assumes "block_exists st (Hash B)" "block_exists st (PreviousHash B)"
  shows "addBlock env B st = Inr st"
proof -
  from assms(2) obtain raw where p: "select_block st (PreviousHash B) = Some raw"
    by (auto simp: block_exists_select)
  from assms(1) have "Hash B \<noteq> EmptyHash"
    by (auto simp: block_exists_def list_ex_iff sql_match_def)
  with assms(1) have "insert_block B st = Inl ErrConstraintPrimaryKey"
    by (simp add: insert_block_def block_exists_def)
  with p show ?thesis
    by (simp add: addBlock_def)
qed

text \<open>
  C6.  When the row of a block and the row of its parent are in the \<open>blocks\<close> table,
  \<open>AddBlock\<close> returns nil and the store (blocks, balances, both transaction indexes, the
  transaction table and the peers) is the same as before: the INSERT of the block row fails
  on its primary key, which \<open>addBlock\<close> answers by returning nil at once.
\<close>

theorem AddBlock_idempotent:
  assumes "block_exists st (Hash B)" "block_exists st (PreviousHash B)"
  shows "DB_AddBlock env B st = (None, st)"
  using addBlock_stored [OF assms] by (simp add: DB_AddBlock_eq)

lemma apply_blocks_error: "apply_blocks env bs st = Inl err \<Longrightarrow> store_error err"
  by (induction bs arbitrary: st) (auto dest: addBlock_error split: sum.splits)

lemma divergedAt_range_eq:
  "divergedAt_range st chain i =
     (if fork_point st chain = length chain then - 1 else i + int (fork_point st chain))"
  by (induction chain arbitrary: i) (auto simp: fork_point_def)

lemma addBlocks_down_eq:
  "addBlocks_down env chain (int n - 1) st = apply_blocks env (map (\<lambda>i. chain ! i) (rev [0..<n])) st"
proof (induction n arbitrary: st)
  case 0
  show ?case by (subst addBlocks_down.simps) simp
next
  case (Suc n)
  have "addBlocks_down env chain (int (Suc n) - 1) st =
      (case addBlock env (chain ! n) st of
         Inl err \<Rightarrow> Inl err
       | Inr st' \<Rightarrow> addBlocks_down env chain (int n - 1) st')"
    using addBlocks_down.simps [of env chain "int n" st] by simp
  then show ?case
    by (simp add: Suc.IH split: sum.splits)
qed

lemma AddBlocks_tx_eq:
  "AddBlocks_tx env chain st =
     (if fork_point st chain = length chain \<or> fork_point st chain = 0 then Inr st
      else apply_blocks env (map (\<lambda>i. chain ! i) (rev [0..<fork_point st chain])) st)"
  unfolding AddBlocks_tx_def Let_def divergedAt_range_eq
  using addBlocks_down_eq [of env chain "fork_point st chain" st]
  by (auto simp: )

lemma AddBlocks_tx_error: "AddBlocks_tx env chain st = Inl err \<Longrightarrow> store_error err"
  by (auto simp: AddBlocks_tx_eq dest: apply_blocks_error split: if_splits)

lemma DB_AddBlocks_eq:
  "DB_AddBlocks env chain st =
     (case AddBlocks_tx env chain st of Inl err \<Rightarrow> (Some err, st) | Inr st' \<Rightarrow> (None, st'))"
  unfolding DB_AddBlocks_def
  by (rule error_of_with_retry) (rule AddBlocks_tx_error)

text \<open>
  C5.  Let the fork point be the index of the first block of the chain that is stored.
  If no block of the chain is stored, or the fork point is 0, \<open>AddBlocks\<close> returns nil and
  leaves the store as it is.  Otherwise \<open>addBlock\<close> is applied to the blocks at indexes
  fork point - 1 down to 0, in that order, inside one transaction: the first error ends the
  loop, is returned and the transaction is rolled back; without an error the result is
  committed.
\<close>

theorem AddBlocks_fork_point:
  "(fork_point st chain = length chain \<or> fork_point st chain = 0 \<longrightarrow>
      DB_AddBlocks env chain st = (None, st)) \<and>
   (0 < fork_point st chain \<and> fork_point st chain < length chain \<longrightarrow>
      DB_AddBlocks env chain st =
        (case apply_blocks env (map (\<lambda>i. chain ! i) (rev [0..<fork_point st chain])) st of
           Inl err \<Rightarrow> (Some err, st)
         | Inr st' \<Rightarrow> (None, st')))"
  by (simp add: DB_AddBlocks_eq AddBlocks_tx_eq)


lemma EmptyHash_eq: "EmptyHash = [0, 0, 0, 0, 0, 0, 0, 0, 0, 0, 0, 0, 0, 0, 0, 0]"
  by (simp add: EmptyHash_def md5_Size_def eval_nat_numeral)


section \<open>Peers\<close>

lemma DB_AddPeer_eq:
  "DB_AddPeer p st =
     (if p \<in> set (peers st) then ((False, None), st)
      else ((True, None), st\<lparr>peers := peers st @ [p]\<rparr>))"
proof -
  have "with_retry False (AddPeer_tx p) st =
      (if p \<in> set (peers st) then (Inr False, st) else (Inr True, st\<lparr>peers := peers st @ [p]\<rparr>))"
    by (auto intro!: with_retry_ok simp: AddPeer_tx_def)
  then show ?thesis by (simp add: DB_AddPeer_def)
qed

lemma DB_PeerExists_eq: "DB_PeerExists p st = ((p \<in> set (peers st), None), st)"
proof (cases "p \<in> set (peers st)")
  case True
  then have "with_retry () (PeerExists_tx p) st = (Inr (), st)"
    by (intro with_retry_ok) (simp add: PeerExists_tx_def)
  with True show ?thesis by (simp add: DB_PeerExists_def)
next
  case False
  then have "with_retry () (PeerExists_tx p) st = (Inl ErrNoRows, st)"
    by (intro with_retry_error) (simp_all add: PeerExists_tx_def sqlite_isDeadlock_def)
  with False show ?thesis by (simp add: DB_PeerExists_def)
qed

lemma validateAndAddPeer_eq:
  "validateAndAddPeer ext ping p st =
     (if ToLower p = ext \<or> ToLower p \<in> set (peers st) \<or> ping (ToLower p) \<noteq> None then (False, st)
      else (True, st\<lparr>peers := peers st @ [ToLower p]\<rparr>))"
  by (auto simp: validateAndAddPeer_def Let_def DB_PeerExists_eq DB_AddPeer_eq split: option.splits)

text \<open>
  C9, as amended.  \<open>DB.AddPeer\<close> is idempotent on the identical string: whatever the store,
  after an add of \<open>p\<close> a second add of the same string reports that no peer was created and
  leaves the store, and so the peer set, as it is.  The store compares peer strings byte for
  byte.  The comparison without regard to case is made by \<open>validateAndAddPeer\<close>, which
  lowercases the peer before it asks the store: after it has created \<open>p\<close>, the same call
  for \<open>p\<close> in any capitalisation creates nothing and leaves the store as it is.
\<close>

theorem AddPeer_idempotent_same_string:
  "(\<exists>created st1. DB_AddPeer p st = ((created, None), st1) \<and>
        DB_AddPeer p st1 = ((False, None), st1)) \<and>
   (\<forall>q st1. ToLower q = ToLower p \<and> validateAndAddPeer ext ping p st = (True, st1) \<longrightarrow>
        validateAndAddPeer ext ping q st1 = (False, st1))"
proof (intro conjI allI impI)
  show "\<exists>created st1. DB_AddPeer p st = ((created, None), st1) \<and>
        DB_AddPeer p st1 = ((False, None), st1)"
    by (auto simp: DB_AddPeer_eq)
next
  fix q st1
  assume a: "ToLower q = ToLower p \<and> validateAndAddPeer ext ping p st = (True, st1)"
  then have "ToLower p \<in> set (peers st1)"
    by (auto simp: validateAndAddPeer_eq split: if_splits)
  with a show "validateAndAddPeer ext ping q st1 = (False, st1)"
    by (simp add: validateAndAddPeer_eq)
qed

lemma lower_examples:
  "ToLower ''Node:8080'' = ''node:8080''" "ToLower ''NODE:8080'' = ''node:8080''"
  by (simp_all add: ToLower_def lower_char_def char_of_def bit_0)


theorem AddPeer_idempotent_same_string_witness:
  "ToLower ''NODE:8080'' = ToLower ''Node:8080'' \<and>
   validateAndAddPeer ''self:8080'' (\<lambda>peer. None) ''Node:8080'' test_store =
     (True, test_store\<lparr>peers := [''node:8080'']\<rparr>) \<and>
   validateAndAddPeer ''self:8080'' (\<lambda>peer. None) ''NODE:8080'' (test_store\<lparr>peers := [''node:8080'']\<rparr>) =
     (False, test_store\<lparr>peers := [''node:8080'']\<rparr>)"
proof -
  have l: "ToLower ''NODE:8080'' = ToLower ''Node:8080''"
    by (simp add: lower_examples)
  have 1: "validateAndAddPeer ''self:8080'' (\<lambda>peer. None) ''Node:8080'' test_store =
     (True, test_store\<lparr>peers := [''node:8080'']\<rparr>)"
    by (simp add: validateAndAddPeer_eq lower_examples test_store_def)
  from AddPeer_idempotent_same_string
    [of "''Node:8080''" test_store "''self:8080''" "\<lambda>peer. None"] l 1
  have "validateAndAddPeer ''self:8080'' (\<lambda>peer. None) ''NODE:8080''
          (test_store\<lparr>peers := [''node:8080'']\<rparr>) =
        (False, test_store\<lparr>peers := [''node:8080'']\<rparr>)"
    by blast
  with l 1 show ?thesis by blast
qed

text \<open>
  C9, as stated, fails on \<open>DB.AddPeer\<close>: after adding \<open>A:1\<close>, adding \<open>a:1\<close> (the same peer in
  another capitalisation) reports a new peer and leaves two entries.
\<close>

theorem AddPeer_case_counterexample:
  "ToLower ''A:1'' = ToLower ''a:1'' \<and>
   DB_AddPeer ''A:1'' test_store = ((True, None), test_store\<lparr>peers := [''A:1'']\<rparr>) \<and>
   DB_AddPeer ''a:1'' (test_store\<lparr>peers := [''A:1'']\<rparr>) =
     ((True, None), test_store\<lparr>peers := [''A:1'', ''a:1'']\<rparr>)"
  by (simp add: DB_AddPeer_eq test_store_def ToLower_def lower_char_def char_of_def bit_0)


section \<open>Pending transactions\<close>

lemma map_of_debit_temp:
  "map_of (debit_temp a x temp) b = (if b = a then map_option (\<lambda>v. v - x) (map_of temp a) else map_of temp b)"
  by (induction temp) (auto simp: debit_temp_def)

lemma map_of_credit_update:
  "map_of (map (\<lambda>(a', v). if a' = a then (a', v + x) else (a', v)) temp) b =
     (if b = a then map_option (\<lambda>v. v + x) (map_of temp a) else map_of temp b)"
  by (induction temp) auto

lemma bal_of_debit_temp:
  assumes "a \<in> fst ` set temp"
  shows "bal_of (debit_temp a x temp) = (bal_of temp)(a := bal_of temp a - x)"
proof -
  from assms obtain v where "map_of temp a = Some v"
    by (metis domIff dom_map_of_conv_image_fst not_Some_eq)
  then show ?thesis
    by (auto simp: bal_of_def map_of_debit_temp fun_eq_iff)
qed

lemma bal_of_credit_temp:
  "bal_of (credit_temp a x temp) = (bal_of temp)(a := bal_of temp a + x)"
proof (cases "a \<in> fst ` set temp")
  case True
  then obtain v where "map_of temp a = Some v"
    by (metis domIff dom_map_of_conv_image_fst not_Some_eq)
  with True show ?thesis
    by (auto simp: bal_of_def credit_temp_def map_of_credit_update fun_eq_iff)
next
  case False
  then have "map_of temp a = None"
    by (simp add: map_of_eq_None_iff)
  with False show ?thesis
    by (auto simp: bal_of_def credit_temp_def map_add_def fun_eq_iff split: option.splits)
qed

lemma bal_of_positive_key: "0 < bal_of temp a \<Longrightarrow> a \<in> fst ` set temp"
  by (force simp: bal_of_def split: option.splits dest!: map_of_SomeD)

lemma validTemporaryTx_None:
  assumes "validTemporaryTx env stx temp = None"
  shows "SignedTx_rules env stx" "sint (RequiredBalance stx) \<le> bal_of temp (Source stx)"
  using assms
  by (auto simp: validTemporaryTx_def bal_of_def Let_def SignedTx_Valid_None_iff [symmetric]
      split: option.splits if_splits)

lemma RequiredBalance_rules:
  assumes "SignedTx_rules env stx"
  shows "sint (RequiredBalance stx) = sint (Amount stx) + sint (Fee stx)"
proof -
  from assms have f: "fits_int64 (sint (Fee stx) + sint (Amount stx))"
    by (simp add: SignedTx_rules_def)
  have "sint (Fee stx + Amount stx) = signed_take_bit 63 (sint (Fee stx) + sint (Amount stx))"
    by (simp add: sint_word_ariths)
  also have "\<dots> = sint (Fee stx) + sint (Amount stx)"
    using f by (intro signed_take_bit_int_eq_self) (simp_all add: fits_int64_def)
  finally show ?thesis by (simp add: RequiredBalance_def)
qed

lemma accept_step:
  assumes "validTemporaryTx env stx temp = None"
  shows "bal_of (credit_temp (Destination stx) (sint (Amount stx))
           (debit_temp (Source stx) (sint (RequiredBalance stx)) temp)) = apply_tx (bal_of temp) stx"
    and "\<forall>a. 0 \<le> bal_of temp a \<Longrightarrow> \<forall>a. 0 \<le> apply_tx (bal_of temp) stx a"
proof -
  note r = validTemporaryTx_None [OF assms]
  have req: "sint (RequiredBalance stx) = sint (Amount stx) + sint (Fee stx)"
    using r(1) by (rule RequiredBalance_rules)
  have pos: "0 < sint (Amount stx)" "0 \<le> sint (Fee stx)"
    using r(1) by (simp_all add: SignedTx_rules_def)
  then have "0 < bal_of temp (Source stx)"
    using r(2) req by simp
  then have key: "Source stx \<in> fst ` set temp"
    by (rule bal_of_positive_key)
  show "bal_of (credit_temp (Destination stx) (sint (Amount stx))
           (debit_temp (Source stx) (sint (RequiredBalance stx)) temp)) = apply_tx (bal_of temp) stx"
    by (simp add: bal_of_credit_temp bal_of_debit_temp [OF key] apply_tx_def Let_def req)
  assume nn: "\<forall>a. 0 \<le> bal_of temp a"
  show "\<forall>a. 0 \<le> apply_tx (bal_of temp) stx a"
  proof
    fix a
    have "0 \<le> bal_of temp a" using nn by simp
    then show "0 \<le> apply_tx (bal_of temp) stx a"
      using r(2) req pos by (auto simp: apply_tx_def Let_def)
  qed
qed

lemma validTemporaryTx_error: "validTemporaryTx env stx temp = Some err \<Longrightarrow> is_InvalidBlockError err"
  by (auto simp: validTemporaryTx_def Let_def dest: SignedTx_Valid_error split: option.splits if_splits)

lemma PendingTxs_rows_no_error: "PendingTxs_rows env limit rows stxs temp st \<noteq> Inl err"
proof (induction rows arbitrary: stxs temp st)
  case Nil
  show ?case by simp
next
  case (Cons row rest)
  show ?case
  proof (cases "validTemporaryTx env (SignedTx_UpdateHash env (json_Unmarshal_SignedTx row)) temp")
    case None
    then show ?thesis using Cons.IH by (simp add: Let_def)
  next
    case (Some e)
    then have "is_InvalidBlockError e" by (rule validTemporaryTx_error)
    with Some show ?thesis using Cons.IH by (simp add: Let_def)
  qed
qed

lemma balances_after_snoc:
  "balances_after bal (stxs @ [stx]) = apply_tx (balances_after bal stxs) stx"
  by (simp add: balances_after_def)

text \<open>
  The loop keeps the scratch balances equal to the tip balances with the accepted
  transactions applied, and never lets one of them become negative.
\<close>

lemma PendingTxs_rows_result:
  assumes "PendingTxs_rows env limit rows stxs temp st = Inr (res, rows_open, st')"
    and "bal_of temp = balances_after bal stxs"
    and "\<forall>k\<le>length stxs. \<forall>a. 0 \<le> balances_after bal (take k stxs) a"
  shows "\<forall>k\<le>length res. \<forall>a. 0 \<le> balances_after bal (take k res) a"
  using assms
proof (induction rows arbitrary: stxs temp st)
  case Nil
  then show ?case by auto
next
  case (Cons row rest)
  define stx where "stx = SignedTx_UpdateHash env (json_Unmarshal_SignedTx row)"
  show ?case
  proof (cases "validTemporaryTx env stx temp")
    case (Some e)
    then have "is_InvalidBlockError e" by (rule validTemporaryTx_error)
    with Some Cons.prems(1)
    have "PendingTxs_rows env limit rest stxs temp (delete_transient_tx (TxHash stx) st) =
            Inr (res, rows_open, st')"
      by (simp add: Let_def stx_def)
    from Cons.IH [OF this Cons.prems(2,3)] show ?thesis .
  next
    case None
    define stxs' where "stxs' = stxs @ [stx]"
    define temp' where "temp' = credit_temp (Destination stx) (sint (Amount stx))
           (debit_temp (Source stx) (sint (RequiredBalance stx)) temp)"
    have nn0: "\<forall>a. 0 \<le> bal_of temp a"
      using Cons.prems(2,3) by (metis order_refl take_all)
    have b': "bal_of temp' = balances_after bal stxs'"
      using accept_step(1) [OF None] Cons.prems(2)
      by (simp add: temp'_def stxs'_def balances_after_snoc)
    have nn': "\<forall>k\<le>length stxs'. \<forall>a. 0 \<le> balances_after bal (take k stxs') a"
    proof (intro allI impI)
      fix k a
      assume k: "k \<le> length stxs'"
      show "0 \<le> balances_after bal (take k stxs') a"
      proof (cases "k \<le> length stxs")
        case True
        then show ?thesis using Cons.prems(3) by (simp add: stxs'_def)
      next
        case False
        with k have "take k stxs' = stxs'" by (simp add: stxs'_def)
        then show ?thesis
          using accept_step(2) [OF None nn0] Cons.prems(2)
          by (simp add: stxs'_def balances_after_snoc)
      qed
    qed
    show ?thesis
    proof (cases "int (length stxs') \<ge> limit")
      case True
      with None Cons.prems(1) have "res = stxs'"
        by (simp add: Let_def stx_def stxs'_def)
      with nn' show ?thesis by simp
    next
      case False
      with None Cons.prems(1)
      have "PendingTxs_rows env limit rest stxs' temp' st = Inr (res, rows_open, st')"
        by (simp add: Let_def stx_def stxs'_def temp'_def)
      from Cons.IH [OF this b' nn'] show ?thesis .
    qed
  qed
qed

text \<open>
  The loop is left by \<open>break\<close> exactly when the slice has reached the limit; when it is
  left because the rows are exhausted, the slice is empty or shorter than the limit.
\<close>

lemma PendingTxs_rows_length:
  assumes "PendingTxs_rows env limit rows stxs temp st = Inr (res, rows_open, st')"
    and "stxs = [] \<or> int (length stxs) < limit"
  shows "if rows_open then res \<noteq> [] \<and> limit \<le> int (length res) \<and> int (length res) \<le> max limit 1
         else res = [] \<or> int (length res) < limit"
  using assms
proof (induction rows arbitrary: stxs temp st)
  case Nil
  then show ?case by auto
next
  case (Cons row rest)
  define stx where "stx = SignedTx_UpdateHash env (json_Unmarshal_SignedTx row)"
  show ?case
  proof (cases "validTemporaryTx env stx temp")
    case (Some e)
    then have "is_InvalidBlockError e" by (rule validTemporaryTx_error)
    with Some Cons.prems(1)
    have "PendingTxs_rows env limit rest stxs temp (delete_transient_tx (TxHash stx) st) =
            Inr (res, rows_open, st')"
      by (simp add: Let_def stx_def)
    from Cons.IH [OF this Cons.prems(2)] show ?thesis .
  next
    case None
    show ?thesis
    proof (cases "int (length (stxs @ [stx])) \<ge> limit")
      case True
      with None Cons.prems(1) have "res = stxs @ [stx]" "rows_open"
        by (simp_all add: Let_def stx_def)
      with True Cons.prems(2) show ?thesis by auto
    next
      case False
      with None Cons.prems(1) obtain temp' where
        "PendingTxs_rows env limit rest (stxs @ [stx]) temp' st = Inr (res, rows_open, st')"
        by (simp add: Let_def stx_def)
      moreover from False have "stxs @ [stx] = [] \<or> int (length (stxs @ [stx])) < limit"
        by simp
      ultimately show ?thesis by (rule Cons.IH)
    qed
  qed
qed

lemma tip_temp_balances:
  "bal_of (map (\<lambda>((h, a), v). (a, v)) (filter (\<lambda>((h, a), v). sql_match h tip) rows)) a =
     (case map_option snd (find (\<lambda>((h, a'), v). sql_match h tip \<and> a' = a) rows) of
        None \<Rightarrow> 0 | Some v \<Rightarrow> v)"
  by (induction rows) (auto simp: bal_of_def)

text \<open>
  An error that the deadlock predicate accepts and that the closure returns on every
  attempt: the three attempts of the handle are used up, every one is rolled back, and the
  result is the \<open>TxError\<close> that wraps the error.
\<close>

lemma store_DB_sleep: "snd (backoff store_DB i w) = w" "time_Sleep store_DB duration w = w"
  by (simp_all add: store_DB_def Open_def store_sqlDB_def BinaryExponentialBackoff_def)

lemma attempt_world_store_error:
  assumes "g st = Inl err"
  shows "attempt_world store_DB (tx_closure g) k \<lparr>durable = st, working = st, captured = r0\<rparr> =
           \<lparr>durable = st, working = st, captured = r0\<rparr>"
proof (induction k)
  case 0
  show ?case by simp
next
  case (Suc k)
  have "snd (backoff store_DB (int k) \<lparr>durable = st, working = st, captured = r0\<rparr>) =
          \<lparr>durable = st, working = st, captured = r0\<rparr>"
    by (rule store_DB_sleep)
  then show ?case
    using Suc Transact_store_error [of g st err r0, OF assms]
    by (simp add: store_DB_sleep case_prod_beta)
qed

lemma with_retry_deadlock:
  fixes r0 :: 'r
  assumes "g st = Inl err" "sqlite_isDeadlock err"
  shows "with_retry r0 g st = (Inl (TxError (Some err) 3), st)"
proof -
  let ?w = "\<lparr>durable = st, working = st, captured = r0\<rparr>"
  let ?d = "store_DB :: 'r conn DB"
  note t = Transact_store_error [of g st err r0, OF assms(1)]
  note a = attempt_world_store_error [of g st err _ r0, OF assms(1)]
  have "TransactWithRetry ?d (tx_closure g) ?w = (Some (TxError (Some err) (tries ?d)), ?w)"
  proof (rule TransactWithRetry_exhausted)
    show "1 \<le> tries ?d" by (simp add: store_DB_fields)
    show "\<forall>j. int j < tries ?d \<longrightarrow> attempt_deadlocks ?d (tx_closure g) ?w j"
      using assms(2) by (simp add: attempt_deadlocks_def a t store_DB_fields)
    show "Transact ?d (tx_closure g)
            (attempt_world ?d (tx_closure g) (nat (tries ?d) - 1) ?w) = (Some err, ?w)"
      by (simp add: a t)
  qed
  then show ?thesis by (simp add: with_retry_def store_DB_fields)
qed

text \<open>
  The two outcomes of the closure: the rows were exhausted and the slice is returned, or
  the loop was left by \<open>break\<close> and the closing \<open>DROP TABLE\<close> fails.
\<close>

lemma PendingTxs_tx_cases:
  obtains (exhausted) stxs st' where
      "PendingTxs_rows env limit (pending_rows st tip) []
         (map (\<lambda>((h, a), v). (a, v)) (filter (\<lambda>((h, a), v). sql_match h tip) (balances st))) st =
         Inr (stxs, False, st')"
      "PendingTxs_tx env tip limit st = Inr (stxs, st')"
  | (limit_reached) stxs st' where
      "PendingTxs_rows env limit (pending_rows st tip) []
         (map (\<lambda>((h, a), v). (a, v)) (filter (\<lambda>((h, a), v). sql_match h tip) (balances st))) st =
         Inr (stxs, True, st')"
      "PendingTxs_tx env tip limit st = Inl (SqliteError ErrLocked)"
proof -
  define temp where
    "temp = map (\<lambda>((h, a), v). (a, v)) (filter (\<lambda>((h, a), v). sql_match h tip) (balances st))"
  obtain stxs rows_open st' where
    r: "PendingTxs_rows env limit (pending_rows st tip) [] temp st = Inr (stxs, rows_open, st')"
    using PendingTxs_rows_no_error [of env limit "pending_rows st tip" "[]" temp st]
    by (cases "PendingTxs_rows env limit (pending_rows st tip) [] temp st") auto
  show thesis
  proof (cases rows_open)
    case True
    with r have "PendingTxs_tx env tip limit st = Inl (SqliteError ErrLocked)"
      by (simp add: PendingTxs_tx_def Let_def temp_def [symmetric] drop_temp_balances_def)
    with r True show thesis
      unfolding temp_def by (intro limit_reached) simp_all
  next
    case False
    with r have "PendingTxs_tx env tip limit st = Inr (stxs, st')"
      by (simp add: PendingTxs_tx_def Let_def temp_def [symmetric] drop_temp_balances_def)
    with r False show thesis
      unfolding temp_def by (intro exhausted) simp_all
  qed
qed

lemma DB_PendingTxs_ok:
  assumes "PendingTxs_tx env tip limit st = Inr (stxs, st')"
  shows "DB_PendingTxs env tip limit st = ((stxs, None), st')"
proof -
  from assms have "with_retry [] (PendingTxs_tx env tip limit) st = (Inr stxs, st')"
    by (rule with_retry_ok)
  then show ?thesis by (simp add: DB_PendingTxs_def)
qed

lemma DB_PendingTxs_locked:
  assumes "PendingTxs_tx env tip limit st = Inl (SqliteError ErrLocked)"
  shows "DB_PendingTxs env tip limit st =
           (([], Some (TxError (Some (SqliteError ErrLocked)) 3)), st)"
proof -
  have "sqlite_isDeadlock (SqliteError ErrLocked)"
    by (simp add: sqlite_isDeadlock_def)
  with assms have "with_retry [] (PendingTxs_tx env tip limit) st =
      (Inl (TxError (Some (SqliteError ErrLocked)) 3), st)"
    by (rule with_retry_deadlock)
  then show ?thesis by (simp add: DB_PendingTxs_def)
qed

lemma PendingTxs_tx_result:
  assumes "PendingTxs_rows env limit (pending_rows st tip) []
         (map (\<lambda>((h, a), v). (a, v)) (filter (\<lambda>((h, a), v). sql_match h tip) (balances st))) st =
         Inr (stxs, rows_open, st')"
    and "\<forall>a. 0 \<le> tip_balance st tip a"
  shows "\<forall>k\<le>length stxs. \<forall>a. 0 \<le> balances_after (tip_balance st tip) (take k stxs) a"
proof -
  define temp where "temp = map (\<lambda>((h, a), v). (a, v)) (filter (\<lambda>((h, a), v). sql_match h tip) (balances st))"
  have r: "PendingTxs_rows env limit (pending_rows st tip) [] temp st = Inr (stxs, rows_open, st')"
    using assms(1) by (simp add: temp_def)
  have b: "bal_of temp = balances_after (tip_balance st tip) []"
    by (auto simp: temp_def tip_temp_balances tip_balance_def select_balance_def balances_after_def)
  have nn: "\<forall>k\<le>length ([]::SignedTx list). \<forall>a. 0 \<le> balances_after (tip_balance st tip) (take k []) a"
    using assms(2) by (simp add: balances_after_def)
  from PendingTxs_rows_result [OF r b nn] show ?thesis .
qed

text \<open>
  When the slice reaches the limit the loop is left by \<open>break\<close>, the closing
  \<open>DROP TABLE temp_balances\<close> is refused on each of the three attempts, and \<open>PendingTxs\<close>
  returns no transaction and a \<open>TxError\<close>; the store is left as it was.
\<close>

lemma PendingTxs_limit_reached:
  assumes "PendingTxs_rows env limit (pending_rows st tip) []
         (map (\<lambda>((h, a), v). (a, v)) (filter (\<lambda>((h, a), v). sql_match h tip) (balances st))) st =
         Inr (res, True, st1)"
  shows "DB_PendingTxs env tip limit st =
           (([], Some (TxError (Some (SqliteError ErrLocked)) 3)), st)"
proof (cases rule: PendingTxs_tx_cases [of env limit st tip])
  case (exhausted stxs st')
  with assms show ?thesis by simp
next
  case (limit_reached stxs st')
  from limit_reached(2) show ?thesis by (rule DB_PendingTxs_locked)
qed

text \<open>
  A call that returns transactions returns fewer than \<open>limit\<close> of them.
\<close>

lemma PendingTxs_below_limit:
  assumes "DB_PendingTxs env tip limit st = ((stxs, err), st')"
  shows "stxs = [] \<or> int (length stxs) < limit"
proof (cases rule: PendingTxs_tx_cases [of env limit st tip])
  case (exhausted res st1)
  from DB_PendingTxs_ok [OF exhausted(2)] assms have "stxs = res" by simp
  with PendingTxs_rows_length [OF exhausted(1)] show ?thesis by simp
next
  case (limit_reached res st1)
  from DB_PendingTxs_locked [OF limit_reached(2)] assms show ?thesis by simp
qed

lemma PendingTxs_solvent:
  assumes "\<forall>a. 0 \<le> tip_balance st tip a" "DB_PendingTxs env tip limit st = ((stxs, err), st')"
  shows "\<forall>k\<le>length stxs. \<forall>a. 0 \<le> balances_after (tip_balance st tip) (take k stxs) a"
proof (cases rule: PendingTxs_tx_cases [of env limit st tip])
  case (exhausted res st1)
  from DB_PendingTxs_ok [OF exhausted(2)] assms(2) have "stxs = res" by simp
  with PendingTxs_tx_result [OF exhausted(1) assms(1)] show ?thesis by simp
next
  case (limit_reached res st1)
  from DB_PendingTxs_locked [OF limit_reached(2)] assms(2) have "stxs = []" by simp
  with assms(1) show ?thesis by (simp add: balances_after_def)
qed

lemma pending_tx_eq: "SignedTx_UpdateHash test_stdlib (json_Unmarshal_SignedTx test_tx) = test_tx"
  by (simp add: SignedTx_UpdateHash_def json_Unmarshal_SignedTx_def json_Marshal_SignedTx_def
      json_strip_def test_tx_def test_stdlib_def test_signature_def)

lemma pending_tx_valid: "validTemporaryTx test_stdlib test_tx [([0, 0], 100)] = None"
proof -
  have "SignedTx_Valid test_stdlib test_tx = None"
    using test_tx_rules by (simp add: SignedTx_Valid_None_iff)
  then show ?thesis
    by (simp add: validTemporaryTx_def RequiredBalance_def test_tx_def)
qed

text \<open>
  The store with the genesis block, 100 coins at the address \<open>[0, 0]\<close> and one pending
  transaction of 40 coins and a fee of 10.
\<close>

lemma pending_store_rows:
  "pending_rows pending_store (Hash test_parent) = [test_tx]"
  "map (\<lambda>((h, a), v). (a, v))
     (filter (\<lambda>((h, a), v). sql_match h (Hash test_parent)) (balances pending_store)) =
     [([0, 0], 100)]"
  by (simp_all add: pending_rows_def pending_store_def test_store_def sql_match_def
      test_parent_def EmptyHash_eq)

lemma pending_store_loop:
  "PendingTxs_rows test_stdlib limit [test_tx] [] [([0, 0], 100)] pending_store =
     Inr ([test_tx], limit \<le> 1, pending_store)"
  by (simp add: pending_tx_eq pending_tx_valid Let_def)

lemma pending_store_tip_balance: "0 \<le> tip_balance pending_store (Hash test_parent) a"
  by (simp add: tip_balance_def select_balance_def pending_store_def test_store_def)

text \<open>With a limit of 2 the pending transaction is returned.\<close>

lemma PendingTxs_example:
  "DB_PendingTxs test_stdlib (Hash test_parent) 2 pending_store = (([test_tx], None), pending_store)"
proof -
  have "PendingTxs_tx test_stdlib (Hash test_parent) 2 pending_store = Inr ([test_tx], pending_store)"
    unfolding PendingTxs_tx_def Let_def pending_store_rows pending_store_loop
    by (simp add: drop_temp_balances_def)
  then show ?thesis by (rule DB_PendingTxs_ok)
qed

text \<open>
  With a limit of 1 the same transaction reaches the limit: the call returns no
  transaction and the error.  The same holds for the limit 0.
\<close>

lemma PendingTxs_example_limit_reached:
  "DB_PendingTxs test_stdlib (Hash test_parent) 1 pending_store =
     (([], Some (TxError (Some (SqliteError ErrLocked)) 3)), pending_store)"
  "DB_PendingTxs test_stdlib (Hash test_parent) 0 pending_store =
     (([], Some (TxError (Some (SqliteError ErrLocked)) 3)), pending_store)"
proof -
  have "PendingTxs_tx test_stdlib (Hash test_parent) 1 pending_store = Inl (SqliteError ErrLocked)"
    unfolding PendingTxs_tx_def Let_def pending_store_rows pending_store_loop
    by (simp add: drop_temp_balances_def)
  then show "DB_PendingTxs test_stdlib (Hash test_parent) 1 pending_store =
     (([], Some (TxError (Some (SqliteError ErrLocked)) 3)), pending_store)"
    by (rule DB_PendingTxs_locked)
  have "PendingTxs_tx test_stdlib (Hash test_parent) 0 pending_store = Inl (SqliteError ErrLocked)"
    unfolding PendingTxs_tx_def Let_def pending_store_rows pending_store_loop
    by (simp add: drop_temp_balances_def)
  then show "DB_PendingTxs test_stdlib (Hash test_parent) 0 pending_store =
     (([], Some (TxError (Some (SqliteError ErrLocked)) 3)), pending_store)"
    by (rule DB_PendingTxs_locked)
qed

text \<open>
  C8.  For every tip hash and every limit, \<open>PendingTxs\<close> returns at most \<open>limit\<close>
  transactions (none when the limit is below 1), and when no address has a negative
  balance at the tip, no address has a negative balance after any prefix of the returned
  transactions has been applied to the tip balances (Amount + Fee taken from the source,
  Amount given to the destination).
\<close>

theorem PendingTxs_limit_and_solvency:
  assumes "DB_PendingTxs env tip limit st = ((stxs, err), st')"
  shows "length stxs \<le> nat limit \<and>
         ((\<forall>a. 0 \<le> tip_balance st tip a) \<longrightarrow>
          (\<forall>k\<le>length stxs. \<forall>a. 0 \<le> balances_after (tip_balance st tip) (take k stxs) a))"
proof (cases rule: PendingTxs_tx_cases [of env limit st tip])
  case (exhausted res st1)
  from DB_PendingTxs_ok [OF exhausted(2)] assms have eq: "stxs = res" by simp
  from PendingTxs_rows_length [OF exhausted(1)] have "res = [] \<or> int (length res) < limit"
    by simp
  then have "length res \<le> nat limit" by auto
  moreover have "(\<forall>a. 0 \<le> tip_balance st tip a) \<longrightarrow>
      (\<forall>k\<le>length res. \<forall>a. 0 \<le> balances_after (tip_balance st tip) (take k res) a)"
    using PendingTxs_tx_result [OF exhausted(1)] by blast
  ultimately show ?thesis using eq by simp
next
  case (limit_reached res st1)
  from DB_PendingTxs_locked [OF limit_reached(2)] assms have "stxs = []" by simp
  then show ?thesis by (simp add: balances_after_def)
qed

theorem PendingTxs_limit_and_solvency_witness:
  "DB_PendingTxs test_stdlib (Hash test_parent) 2 pending_store =
     (([test_tx], None), pending_store) \<and>
   length [test_tx] \<le> nat 2 \<and>
   tip_balance pending_store (Hash test_parent) [0, 0] = 100 \<and>
   balances_after (tip_balance pending_store (Hash test_parent)) [test_tx] [0, 0] = 50 \<and>
   0 \<le> balances_after (tip_balance pending_store (Hash test_parent)) (take 1 [test_tx]) [0, 0]"
proof -
  note ex = PendingTxs_example
  from PendingTxs_limit_and_solvency [OF ex] pending_store_tip_balance
  have "\<forall>k\<le>length [test_tx]. \<forall>a.
      0 \<le> balances_after (tip_balance pending_store (Hash test_parent)) (take k [test_tx]) a"
    by blast
  from this [rule_format, of 1 "[0, 0]"]
  have "0 \<le> balances_after (tip_balance pending_store (Hash test_parent)) (take 1 [test_tx]) [0, 0]"
    by simp
  moreover have "tip_balance pending_store (Hash test_parent) [0, 0] = 100"
    by (simp add: tip_balance_def select_balance_def pending_store_def test_store_def
        sql_match_def test_parent_def EmptyHash_eq)
  moreover from this
  have "balances_after (tip_balance pending_store (Hash test_parent)) [test_tx] [0, 0] = 50"
    by (simp add: balances_after_def apply_tx_def Let_def test_tx_def)
  ultimately show ?thesis using ex by simp
qed

section \<open>Blocks with a repeated transaction\<close>

lemma tx_steps_keep_indexes [simp]:
  "included_txs (debit_balance h a x st) = included_txs st"
  "included_txs (credit_balance h a x st) = included_txs st"
  "included_txs (addTx stx st) = included_txs st"
  "block_txs (debit_balance h a x st) = block_txs st"
  "block_txs (credit_balance h a x st) = block_txs st"
  "block_txs (addTx stx st) = block_txs st"
  by (simp_all add: debit_balance_def credit_balance_def addTx_def)

lemma insert_included_Inr:
  assumes "insert_included h t st = Inr st'"
  shows "h \<noteq> EmptyHash" "t \<noteq> EmptyHash" "included_txs st' = included_txs st @ [(h, t)]"
    "block_txs st' = block_txs st"
  using assms by (auto simp: insert_included_def split: if_splits)

lemma insert_block_tx_Inr:
  assumes "insert_block_tx h t st = Inr st'"
  shows "included_txs st' = included_txs st" "block_txs st' = block_txs st @ [(h, t)]"
  using assms by (auto simp: insert_block_tx_def split: if_splits)

lemma is_included_iff:
  "is_included st h t \<longleftrightarrow> h \<noteq> EmptyHash \<and> t \<noteq> EmptyHash \<and> (h, t) \<in> set (included_txs st)"
  by (auto simp: is_included_def list_ex_iff sql_match_def)

lemma validTx_included:
  assumes "(h, TxHash stx) \<in> set (included_txs st)" "h \<noteq> EmptyHash" "TxHash stx \<noteq> EmptyHash"
  shows "validTx env stx h st \<noteq> None"
  using assms by (auto simp: validTx_def Let_def is_included_iff split: option.splits)

lemma validTx_None_not_included:
  assumes "validTx env stx h st = None" "h \<noteq> EmptyHash" "TxHash stx \<noteq> EmptyHash"
  shows "(h, TxHash stx) \<notin> set (included_txs st)"
  using assms by (auto simp: validTx_def Let_def is_included_iff split: option.splits if_splits)

text \<open>One round of the loop that does not fail.\<close>

lemma addBlock_range_Cons_cases:
  assumes "addBlock_range env block (stx # rest) fee st = r"
  obtains (invalid) err where "validTx env stx (Hash block) st = Some err" "r = Inl err"
  | (included) code where "validTx env stx (Hash block) st = None" "r = Inl (SqliteError code)"
      "insert_included (Hash block) (TxHash stx)
         (addTx stx (credit_balance (Hash block) (Destination stx) (sint (Amount stx))
           (debit_balance (Hash block) (Source stx) (sint (RequiredBalance stx)) st))) = Inl code"
  | (block_tx) code st2 where "validTx env stx (Hash block) st = None" "r = Inl (SqliteError code)"
      "insert_included (Hash block) (TxHash stx)
         (addTx stx (credit_balance (Hash block) (Destination stx) (sint (Amount stx))
           (debit_balance (Hash block) (Source stx) (sint (RequiredBalance stx)) st))) = Inr st2"
      "insert_block_tx (Hash block) (TxHash stx) st2 = Inl code"
  | (proceed) st2 st3 where "validTx env stx (Hash block) st = None"
      "insert_included (Hash block) (TxHash stx)
         (addTx stx (credit_balance (Hash block) (Destination stx) (sint (Amount stx))
           (debit_balance (Hash block) (Source stx) (sint (RequiredBalance stx)) st))) = Inr st2"
      "insert_block_tx (Hash block) (TxHash stx) st2 = Inr st3"
      "r = addBlock_range env block rest (fee + Fee stx) st3"
  using assms by (auto simp: Let_def split: option.splits sum.splits)

lemma addBlock_range_next_indexes:
  assumes "insert_included h t
         (addTx stx (credit_balance h d x (debit_balance h s y st))) = Inr st2"
    and "insert_block_tx h t st2 = Inr st3"
  shows "included_txs st3 = included_txs st @ [(h, t)]" "block_txs st3 = block_txs st @ [(h, t)]"
    "h \<noteq> EmptyHash" "t \<noteq> EmptyHash"
  using insert_included_Inr [OF assms(1)] insert_block_tx_Inr [OF assms(2)] by simp_all

lemma addBlock_range_included_fails:
  assumes "h \<in> TxHash ` set stxs" "(Hash block, h) \<in> set (included_txs st)"
    "Hash block \<noteq> EmptyHash" "h \<noteq> EmptyHash"
  shows "\<exists>err. addBlock_range env block stxs fee st = Inl err"
  using assms
proof (induction stxs arbitrary: fee st)
  case Nil
  then show ?case by simp
next
  case (Cons stx rest)
  obtain r where r: "addBlock_range env block (stx # rest) fee st = r" by simp
  from r show ?case
  proof (cases rule: addBlock_range_Cons_cases)
    case (proceed st2 st3)
    then have "TxHash stx \<noteq> h"
      using validTx_included [of "Hash block" stx st env] Cons.prems by auto
    with Cons.prems have 1: "h \<in> TxHash ` set rest" by auto
    have 2: "(Hash block, h) \<in> set (included_txs st3)"
      using addBlock_range_next_indexes(1) [OF proceed(2,3)] Cons.prems(2) by simp
    from Cons.IH [OF 1 2 Cons.prems(3,4)] proceed(4) r show ?thesis by simp
  qed (use r in auto)
qed

lemma addBlock_range_duplicate_fails:
  assumes "\<not> distinct (map TxHash stxs)"
  shows "\<exists>err. addBlock_range env block stxs fee st = Inl err"
  using assms
proof (induction stxs arbitrary: fee st)
  case Nil
  then show ?case by simp
next
  case (Cons stx rest)
  obtain r where r: "addBlock_range env block (stx # rest) fee st = r" by simp
  from r show ?case
  proof (cases rule: addBlock_range_Cons_cases)
    case (proceed st2 st3)
    note i = addBlock_range_next_indexes [OF proceed(2,3)]
    show ?thesis
    proof (cases "TxHash stx \<in> TxHash ` set rest")
      case True
      have "(Hash block, TxHash stx) \<in> set (included_txs st3)"
        using i(1) by simp
      from addBlock_range_included_fails [OF True this i(3,4)] proceed(4) r show ?thesis
        by simp
    next
      case False
      with Cons.prems have "\<not> distinct (map TxHash rest)" by simp
      from Cons.IH [OF this] proceed(4) r show ?thesis by simp
    qed
  qed (use r in auto)
qed

text \<open>Rows of \<open>block_txs\<close> under a block hash are rows of \<open>included_txs\<close>.\<close>

lemma addBlock_range_error_kind:
  assumes "addBlock_range env block stxs fee st = Inl err"
    and "Hash block \<noteq> EmptyHash" "\<forall>t\<in>set stxs. TxHash t \<noteq> EmptyHash"
    and "\<forall>t. (Hash block, t) \<in> set (block_txs st) \<longrightarrow> (Hash block, t) \<in> set (included_txs st)"
  shows "is_InvalidBlockError err"
  using assms
proof (induction stxs arbitrary: fee st)
  case Nil
  then show ?case by simp
next
  case (Cons stx rest)
  have ne: "TxHash stx \<noteq> EmptyHash" using Cons.prems(3) by simp
  from Cons.prems(1) show ?case
  proof (cases rule: addBlock_range_Cons_cases)
    case (invalid e)
    then show ?thesis using validTx_error by auto
  next
    case (included code)
    from validTx_None_not_included [OF included(1) Cons.prems(2) ne]
    have "insert_included (Hash block) (TxHash stx)
         (addTx stx (credit_balance (Hash block) (Destination stx) (sint (Amount stx))
           (debit_balance (Hash block) (Source stx) (sint (RequiredBalance stx)) st))) \<noteq> Inl code"
      using Cons.prems(2) ne by (simp add: insert_included_def)
    with included(3) show ?thesis by simp
  next
    case (block_tx code st2)
    from validTx_None_not_included [OF block_tx(1) Cons.prems(2) ne] Cons.prems(4)
    have "(Hash block, TxHash stx) \<notin> set (block_txs st)" by blast
    then have "(Hash block, TxHash stx) \<notin> set (block_txs st2)"
      using insert_included_Inr(4) [OF block_tx(3)] by simp
    then have "insert_block_tx (Hash block) (TxHash stx) st2 \<noteq> Inl code"
      using Cons.prems(2) ne by (simp add: insert_block_tx_def)
    with block_tx(4) show ?thesis by simp
  next
    case (proceed st2 st3)
    note i = addBlock_range_next_indexes [OF proceed(2,3)]
    have inv: "\<forall>t. (Hash block, t) \<in> set (block_txs st3) \<longrightarrow> (Hash block, t) \<in> set (included_txs st3)"
      using Cons.prems(4) i(1,2) by auto
    have rest: "\<forall>t\<in>set rest. TxHash t \<noteq> EmptyHash" using Cons.prems(3) by simp
    from Cons.IH [OF proceed(4) [symmetric] Cons.prems(2) rest inv] show ?thesis .
  qed
qed


lemma insert_block_fresh:
  assumes "\<not> block_exists st (Hash B)" "Hash B \<noteq> EmptyHash"
  shows "insert_block B st = Inr (st\<lparr>blocks := blocks st @ [B]\<rparr>)"
  using assms by (simp add: insert_block_def block_exists_def)

lemma insert_block_not_primary_key:
  assumes "\<not> block_exists st (Hash B)"
  shows "insert_block B st \<noteq> Inl ErrConstraintPrimaryKey"
  using assms by (simp add: insert_block_def block_exists_def)

lemma addBlock_duplicate_error:
  assumes "\<not> block_exists st (Hash B)" "\<not> distinct (map TxHash (Transactions B))"
  shows "\<exists>err. addBlock env B st = Inl err"
proof (cases "addBlock env B st")
  case (Inl err)
  then show ?thesis by simp
next
  case (Inr st')
  from Inr insert_block_not_primary_key [OF assms(1)]
  obtain fee st3 r where "addBlock_range env B (Transactions B) fee st3 = Inr r"
    unfolding addBlock_def Let_def
    by (auto split: option.splits sum.splits if_splits prod.splits)
  with addBlock_range_duplicate_fails [OF assms(2), of env B fee st3] show ?thesis
    by simp
qed

lemma copy_balances_fresh:
  assumes "list_all (\<lambda>((h, a), v). h \<noteq> new) (balances st)"
  shows "\<exists>st'. copy_balances new prev st = Inr st' \<and> included_txs st' = included_txs st \<and>
           block_txs st' = block_txs st"
proof -
  have "\<not> list_ex (\<lambda>(k, v). k \<in> set (map fst (balances st)))
          (map (\<lambda>((h, a), v). ((new, a), v)) (filter (\<lambda>((h, a), v). sql_match h prev) (balances st)))"
    using assms by (force simp: list_ex_iff list_all_iff)
  then show ?thesis by (simp add: copy_balances_def Let_def)
qed

lemma copy_included_fresh:
  assumes "list_all (\<lambda>(h, t). h \<noteq> new) (included_txs st)"
  shows "\<exists>st'. copy_included new prev st = Inr st' \<and> block_txs st' = block_txs st"
proof -
  have "\<not> list_ex (\<lambda>r. r \<in> set (included_txs st))
          (map (\<lambda>(h, t). (new, t)) (filter (\<lambda>(h, t). sql_match h prev) (included_txs st)))"
    using assms by (force simp: list_ex_iff list_all_iff)
  then show ?thesis by (simp add: copy_included_def Let_def)
qed

lemma foreign_keys_fresh:
  assumes "foreign_keys_hold st" "\<not> block_exists st h"
  shows "list_all (\<lambda>((h', a), v). h' \<noteq> h) (balances st)"
    "list_all (\<lambda>(h', t). h' \<noteq> h) (included_txs st)"
    "list_all (\<lambda>(h', t). h' \<noteq> h) (block_txs st)"
  using assms by (auto simp: foreign_keys_hold_def list_all_iff)

lemma addBlock_error_invalid:
  assumes "addBlock env B st = Inl err"
    and "block_exists st (PreviousHash B)" "\<not> block_exists st (Hash B)"
    and "Hash B \<noteq> EmptyHash" "list_all (\<lambda>t. TxHash t \<noteq> EmptyHash) (Transactions B)"
    and "foreign_keys_hold st"
  shows "is_InvalidBlockError err"
proof -
  from assms(2) obtain raw where p: "select_block st (PreviousHash B) = Some raw"
    by (auto simp: block_exists_select)
  define st1 where "st1 = st\<lparr>blocks := blocks st @ [B]\<rparr>"
  have i: "insert_block B st = Inr st1"
    using insert_block_fresh [OF assms(3,4)] by (simp add: st1_def)
  note fk = foreign_keys_fresh [OF assms(6,3)]
  have "list_all (\<lambda>((h', a), v). h' \<noteq> Hash B) (balances st1)"
    using fk(1) by (simp add: st1_def)
  from copy_balances_fresh [OF this, of "PreviousHash B"] obtain st2 where
    c1: "copy_balances (Hash B) (PreviousHash B) st1 = Inr st2"
    and s2: "included_txs st2 = included_txs st" "block_txs st2 = block_txs st"
    by (auto simp: st1_def)
  have "list_all (\<lambda>(h', t). h' \<noteq> Hash B) (included_txs st2)"
    using fk(2) s2 by simp
  from copy_included_fresh [OF this, of "PreviousHash B"] obtain st3 where
    c2: "copy_included (Hash B) (PreviousHash B) st2 = Inr st3"
    and s3: "block_txs st3 = block_txs st"
    using s2 by auto
  have inv: "\<forall>t. (Hash B, t) \<in> set (block_txs st3) \<longrightarrow> (Hash B, t) \<in> set (included_txs st3)"
    using fk(3) s3 by (auto simp: list_all_iff)
  have txs: "\<forall>t\<in>set (Transactions B). TxHash t \<noteq> EmptyHash"
    using assms(5) by (simp add: list_all_iff)
  show ?thesis
  proof (cases "Block_Valid env B (DecodeBlock env raw)")
    case (Some e)
    with assms(1) p i c1 c2 have "err = e"
      by (simp add: addBlock_def)
    with Some show ?thesis by (auto dest: Block_Valid_error)
  next
    case None
    with assms(1) p i c1 c2
    have "addBlock_range env B (Transactions B) (Amount (RewardOutput B)) st3 = Inl err"
      by (auto simp: addBlock_def Let_def split: sum.splits)
    from addBlock_range_error_kind [OF this assms(4) txs inv] show ?thesis .
  qed
qed

lemma duplicate_positions:
  assumes "i < j" "j < length stxs" "TxHash (stxs ! i) = TxHash (stxs ! j)"
  shows "\<not> distinct (map TxHash stxs)"
proof
  assume "distinct (map TxHash stxs)"
  then have "map TxHash stxs ! i \<noteq> map TxHash stxs ! j"
    using assms(1,2) by (simp add: nth_eq_iff_index_eq del: nth_map)
  with assms show False by simp
qed

text \<open>
  C10, as amended.  Let \<open>B\<close> be a block whose row is not stored and that holds the same
  transaction hash at two positions.  Then \<open>AddBlock\<close> returns an error and the store is
  left as it was: \<open>B\<close> is never accepted.  When the parent of \<open>B\<close> is stored, neither the hash of
  \<open>B\<close> nor a transaction hash of \<open>B\<close> is the zero hash (which the store writes as NULL) and the
  store respects its foreign keys, that error is an \<open>InvalidBlockError\<close>: every transaction
  is validated against the inclusion set of the new block, which grows with every
  transaction applied, so the second occurrence cannot pass the already-included check.
\<close>

theorem AddBlock_duplicate_tx:
  assumes "\<not> block_exists st (Hash B)"
    and "i < j" "j < length (Transactions B)"
    and "TxHash (Transactions B ! i) = TxHash (Transactions B ! j)"
  shows "\<exists>err. DB_AddBlock env B st = (Some err, st) \<and>
           (block_exists st (PreviousHash B) \<and> Hash B \<noteq> EmptyHash \<and>
            list_all (\<lambda>t. TxHash t \<noteq> EmptyHash) (Transactions B) \<and> foreign_keys_hold st \<longrightarrow>
            is_InvalidBlockError err)"
proof -
  have "\<not> distinct (map TxHash (Transactions B))"
    using assms(2-4) by (rule duplicate_positions)
  from addBlock_duplicate_error [OF assms(1) this] obtain err where
    e: "addBlock env B st = Inl err" ..
  then have "DB_AddBlock env B st = (Some err, st)"
    by (simp add: DB_AddBlock_eq)
  moreover have "is_InvalidBlockError err"
    if "block_exists st (PreviousHash B) \<and> Hash B \<noteq> EmptyHash \<and>
        list_all (\<lambda>t. TxHash t \<noteq> EmptyHash) (Transactions B) \<and> foreign_keys_hold st"
    using addBlock_error_invalid [OF e _ assms(1)] that by blast
  ultimately show ?thesis by blast
qed


section \<open>What a successful AddBlock leaves behind\<close>

lemma blocks_kept [simp]:
  "blocks (debit_balance h a x st) = blocks st"
  "blocks (credit_balance h a x st) = blocks st"
  "blocks (addTx stx st) = blocks st"
  "blocks (delete_zero_balances st) = blocks st"
  by (simp_all add: debit_balance_def credit_balance_def addTx_def delete_zero_balances_def)

lemma blocks_insert_included: "insert_included h t st = Inr st' \<Longrightarrow> blocks st' = blocks st"
  by (auto simp: insert_included_def split: if_splits)

lemma blocks_insert_block_tx: "insert_block_tx h t st = Inr st' \<Longrightarrow> blocks st' = blocks st"
  by (auto simp: insert_block_tx_def split: if_splits)

lemma blocks_copy_balances: "copy_balances n p st = Inr st' \<Longrightarrow> blocks st' = blocks st"
  by (auto simp: copy_balances_def Let_def split: if_splits)

lemma blocks_copy_included: "copy_included n p st = Inr st' \<Longrightarrow> blocks st' = blocks st"
  by (auto simp: copy_included_def Let_def split: if_splits)

lemma blocks_addBlock_range:
  "addBlock_range env block stxs fee st = Inr (fee', st') \<Longrightarrow> blocks st' = blocks st"
proof (induction stxs arbitrary: fee st)
  case Nil
  then show ?case by simp
next
  case (Cons stx rest)
  from Cons.prems show ?case
  proof (cases rule: addBlock_range_Cons_cases)
    case (proceed st2 st3)
    from Cons.IH [OF proceed(4) [symmetric]] blocks_insert_included [OF proceed(2)]
      blocks_insert_block_tx [OF proceed(3)]
    show ?thesis by simp
  qed simp_all
qed

lemma blocks_addBlock:
  assumes "addBlock env B st = Inr st'"
  shows "blocks st' = blocks st \<and> block_exists st (Hash B) \<or> blocks st' = blocks st @ [B] \<and> Hash B \<noteq> EmptyHash"
proof (cases "insert_block B st")
  case (Inl code)
  with assms have "code = ErrConstraintPrimaryKey" "st' = st"
    by (auto simp: addBlock_def Let_def split: option.splits if_splits)
  moreover from Inl this(1) have "block_exists st (Hash B)"
    by (auto simp: insert_block_def block_exists_def split: if_splits)
  ultimately show ?thesis by simp
next
  case (Inr st1)
  then have 1: "blocks st1 = blocks st @ [B]" "Hash B \<noteq> EmptyHash"
    by (auto simp: insert_block_def split: if_splits)
  from assms Inr obtain st2 st3 fee st4 where
    "copy_balances (Hash B) (PreviousHash B) st1 = Inr st2"
    "copy_included (Hash B) (PreviousHash B) st2 = Inr st3"
    "addBlock_range env B (Transactions B) (Amount (RewardOutput B)) st3 = Inr (fee, st4)"
    "blocks st' = blocks st4"
    by (auto simp: addBlock_def Let_def split: option.splits sum.splits if_splits prod.splits)
  with 1 show ?thesis
    using blocks_copy_balances blocks_copy_included blocks_addBlock_range by metis
qed

lemma block_exists_append: "block_exists st h \<Longrightarrow> blocks st' = blocks st @ bs \<Longrightarrow> block_exists st' h"
  by (auto simp: block_exists_def list_ex_iff)

lemma addBlock_then_stored:
  assumes "addBlock env B st = Inr st'"
  shows "block_exists st' (Hash B)" "block_exists st' (PreviousHash B)"
proof -
  from assms have p: "block_exists st (PreviousHash B)"
    by (auto simp: block_exists_select addBlock_def split: option.splits)
  from blocks_addBlock [OF assms] show "block_exists st' (Hash B)"
    by (auto simp: block_exists_def list_ex_iff sql_match_def)
  from blocks_addBlock [OF assms] p show "block_exists st' (PreviousHash B)"
    by (auto simp: block_exists_def list_ex_iff)
qed

text \<open>
  Accordingly a second \<open>AddBlock\<close> of the same block right after a successful one returns nil
  and changes nothing.
\<close>

lemma AddBlock_twice:
  assumes "DB_AddBlock env B st = (None, st')"
  shows "DB_AddBlock env B st' = (None, st')"
proof -
  from assms have "addBlock env B st = Inr st'"
    by (auto simp: DB_AddBlock_eq split: sum.splits)
  from addBlock_then_stored [OF this] show ?thesis
    by (simp add: DB_AddBlock_eq addBlock_stored)
qed

lemma block_exists_blocks: "blocks st' = blocks st \<Longrightarrow> block_exists st' h = block_exists st h"
  by (simp add: block_exists_def)

lemma foreign_keys_hold_iff:
  "foreign_keys_hold st \<longleftrightarrow>
     (\<forall>h a v. ((h, a), v) \<in> set (balances st) \<longrightarrow> block_exists st h) \<and>
     (\<forall>h t. (h, t) \<in> set (included_txs st) \<longrightarrow> block_exists st h) \<and>
     (\<forall>h t. (h, t) \<in> set (block_txs st) \<longrightarrow> block_exists st h)"
  by (auto simp: foreign_keys_hold_def list_all_iff)

lemma block_exists_kept [simp]:
  "block_exists (debit_balance h a x st) = block_exists st"
  "block_exists (credit_balance h a x st) = block_exists st"
  "block_exists (addTx stx st) = block_exists st"
  "block_exists (delete_zero_balances st) = block_exists st"
  by (simp_all add: block_exists_def fun_eq_iff)

lemma fk_debit: "foreign_keys_hold st \<Longrightarrow> foreign_keys_hold (debit_balance h a x st)"
  unfolding foreign_keys_hold_iff block_exists_kept
  by (fastforce simp: debit_balance_def split: if_splits)

lemma fk_credit:
  "foreign_keys_hold st \<Longrightarrow> block_exists st h \<Longrightarrow> foreign_keys_hold (credit_balance h a x st)"
  unfolding foreign_keys_hold_iff block_exists_kept
  by (fastforce simp: credit_balance_def split: if_splits)

lemma fk_addTx: "foreign_keys_hold st \<Longrightarrow> foreign_keys_hold (addTx stx st)"
  unfolding foreign_keys_hold_iff block_exists_kept
  by (simp add: addTx_def)

lemma fk_delete_zero: "foreign_keys_hold st \<Longrightarrow> foreign_keys_hold (delete_zero_balances st)"
  unfolding foreign_keys_hold_iff block_exists_kept
  by (fastforce simp: delete_zero_balances_def)

lemma fk_insert_included:
  "insert_included h t st = Inr st' \<Longrightarrow> foreign_keys_hold st \<Longrightarrow> block_exists st h \<Longrightarrow>
   foreign_keys_hold st'"
  unfolding foreign_keys_hold_iff
  by (fastforce simp: insert_included_def block_exists_def split: if_splits)

lemma fk_insert_block_tx:
  "insert_block_tx h t st = Inr st' \<Longrightarrow> foreign_keys_hold st \<Longrightarrow> block_exists st h \<Longrightarrow>
   foreign_keys_hold st'"
  unfolding foreign_keys_hold_iff
  by (fastforce simp: insert_block_tx_def block_exists_def split: if_splits)

lemma fk_copy_balances:
  "copy_balances n p st = Inr st' \<Longrightarrow> foreign_keys_hold st \<Longrightarrow> block_exists st n \<Longrightarrow>
   foreign_keys_hold st'"
  unfolding foreign_keys_hold_iff
  by (fastforce simp: copy_balances_def Let_def block_exists_def split: if_splits)

lemma fk_copy_included:
  "copy_included n p st = Inr st' \<Longrightarrow> foreign_keys_hold st \<Longrightarrow> block_exists st n \<Longrightarrow>
   foreign_keys_hold st'"
  unfolding foreign_keys_hold_iff
  by (fastforce simp: copy_included_def Let_def block_exists_def split: if_splits)

lemma fk_insert_block:
  "insert_block B st = Inr st' \<Longrightarrow> foreign_keys_hold st \<Longrightarrow>
   foreign_keys_hold st' \<and> block_exists st' (Hash B)"
  unfolding foreign_keys_hold_iff
  by (fastforce simp: insert_block_def block_exists_def list_ex_iff sql_match_def
      split: if_splits)

lemma fk_addBlock_range:
  assumes "addBlock_range env block stxs fee st = Inr (fee', st')"
    and "foreign_keys_hold st" "block_exists st (Hash block)"
  shows "foreign_keys_hold st' \<and> block_exists st' (Hash block)"
  using assms
proof (induction stxs arbitrary: fee st)
  case Nil
  then show ?case by simp
next
  case (Cons stx rest)
  from Cons.prems(1) show ?case
  proof (cases rule: addBlock_range_Cons_cases)
    case (proceed st2 st3)
    define st1 where "st1 = addTx stx (credit_balance (Hash block) (Destination stx) (sint (Amount stx))
           (debit_balance (Hash block) (Source stx) (sint (RequiredBalance stx)) st))"
    have e1: "block_exists st1 (Hash block)"
      using Cons.prems(3) by (simp add: st1_def block_exists_def)
    have f1: "foreign_keys_hold st1"
      unfolding st1_def using Cons.prems(2,3)
      by (intro fk_addTx fk_credit fk_debit) (simp_all add: block_exists_def)
    have i: "insert_included (Hash block) (TxHash stx) st1 = Inr st2"
      using proceed(2) by (simp add: st1_def)
    have f2: "foreign_keys_hold st2" using fk_insert_included [OF i f1 e1] .
    have e2: "block_exists st2 (Hash block)"
      using e1 blocks_insert_included [OF i] by (simp add: block_exists_def)
    have f3: "foreign_keys_hold st3" using fk_insert_block_tx [OF proceed(3) f2 e2] .
    have e3: "block_exists st3 (Hash block)"
      using e2 blocks_insert_block_tx [OF proceed(3)] by (simp add: block_exists_def)
    from Cons.IH [OF proceed(4) [symmetric] f3 e3] show ?thesis .
  qed simp_all
qed

text \<open>\<open>addBlock\<close> keeps the foreign keys of the store.\<close>

lemma addBlock_foreign_keys:
  assumes "addBlock env B st = Inr st'" "foreign_keys_hold st"
  shows "foreign_keys_hold st'"
proof (cases "insert_block B st")
  case (Inl code)
  with assms(1) have "st' = st"
    by (auto simp: addBlock_def Let_def split: option.splits if_splits)
  with assms(2) show ?thesis by simp
next
  case (Inr st1)
  from assms(1) Inr obtain st2 st3 fee st4 where
    c1: "copy_balances (Hash B) (PreviousHash B) st1 = Inr st2" and
    c2: "copy_included (Hash B) (PreviousHash B) st2 = Inr st3" and
    r: "addBlock_range env B (Transactions B) (Amount (RewardOutput B)) st3 = Inr (fee, st4)" and
    s: "st' = delete_zero_balances
          (if 0 <s fee then credit_balance (Hash B) (Destination (RewardOutput B)) (sint fee) st4
           else st4)"
    by (auto simp: addBlock_def Let_def split: option.splits sum.splits if_splits prod.splits)
  note f1 = fk_insert_block [OF Inr assms(2)]
  have f2: "foreign_keys_hold st2" using fk_copy_balances [OF c1] f1 by blast
  have e2: "block_exists st2 (Hash B)"
    using f1 blocks_copy_balances [OF c1] by (simp add: block_exists_def)
  have f3: "foreign_keys_hold st3" using fk_copy_included [OF c2 f2 e2] .
  have e3: "block_exists st3 (Hash B)"
    using e2 blocks_copy_included [OF c2] by (simp add: block_exists_def)
  from fk_addBlock_range [OF r f3 e3] have "foreign_keys_hold st4" "block_exists st4 (Hash B)"
    by simp_all
  then show ?thesis
    unfolding s by (auto intro!: fk_delete_zero fk_credit)
qed

lemma test_store_foreign_keys: "foreign_keys_hold test_store"
  by (simp add: foreign_keys_hold_def test_store_def block_exists_def sql_match_def
      test_parent_def EmptyHash_eq)


section \<open>The store on concrete inputs\<close>

text \<open>
  The scenario of the specification: the source holds 100 coins at the parent, the block
  carries one transaction of amount 40 and fee 10 and a reward of 100.  After \<open>AddBlock\<close>
  the source has 50, the destination 40 and the reward destination 110 at the new block.
  The same block with the transaction twice is rejected by the already-included check.
\<close>

lemma BigEndian_examples:
  "BigEndian_int64 0 = [0, 0, 0, 0, 0, 0, 0, 0]"
  "BigEndian_int64 39611433 = [0, 0, 0, 0, 2, 92, 108, 41]"
  by (simp_all add: BigEndian_int64_def drop_bit_eq_div)

lemma decode_test_parent:
  "Hash (DecodeBlock test_stdlib test_parent) = Hash test_parent"
  "Height (DecodeBlock test_stdlib test_parent) = 0"
  by (simp_all add: DecodeBlock_def json_Unmarshal_Block_def UpdateHash_def Let_def md5_New_def
      hash_Write_def binary_Write_def hash_Sum_def test_parent_def test_stdlib_def
      json_Marshal_SignedTxs_def EmptyHash_eq BigEndian_examples)

lemma test_block_valid:
  "Block_Valid test_stdlib test_block (DecodeBlock test_stdlib test_parent) = None"
  "Block_Valid test_stdlib twice_block (DecodeBlock test_stdlib test_parent) = None"
  unfolding Block_Valid_None_iff Block_rules_def decode_test_parent
  by (simp_all add: test_block_def twice_block_def Hash_Valid_def test_tx_rules)

lemma scenario_AddBlock:
  "addBlock test_stdlib test_block test_store = Inr scenario_store"
  "DB_AddBlock test_stdlib test_block test_store = (None, scenario_store)"
proof -
  have p: "select_block test_store (PreviousHash test_block) = Some test_parent"
    by (simp add: select_block_def test_store_def test_block_def test_parent_def sql_match_def
        EmptyHash_eq)
  have i: "insert_block test_block test_store = Inr (test_store\<lparr>blocks := [test_parent, test_block]\<rparr>)"
    using insert_block_fresh [of test_store test_block]
    by (simp add: block_exists_def test_store_def test_block_def test_parent_def sql_match_def
        EmptyHash_eq)
  have v: "SignedTx_Valid test_stdlib test_tx = None"
    using test_tx_rules by (simp add: SignedTx_Valid_None_iff)
  have "addBlock test_stdlib test_block test_store =
     Inr scenario_store"
    unfolding addBlock_def p i option.case sum.case Let_def test_block_valid
    by (simp add: test_store_def scenario_store_def copy_balances_def copy_included_def sql_match_def
        test_block_def test_parent_def EmptyHash_eq Let_def validTx_def select_balance_def
        is_included_def RequiredBalance_def test_tx_def debit_balance_def credit_balance_def
        addTx_def insert_included_def insert_block_tx_def delete_zero_balances_def
        v [unfolded test_tx_def] word_sless_alt)
  then show "addBlock test_stdlib test_block test_store = Inr scenario_store" .
  then show "DB_AddBlock test_stdlib test_block test_store = (None, scenario_store)"
    by (simp add: DB_AddBlock_eq)
qed


lemma scenario_duplicate:
  "DB_AddBlock test_stdlib twice_block test_store =
     (Some (InvalidBlockError ''cryptopuff: transaction already included in blockchain'' None),
      test_store)"
proof -
  have p: "select_block test_store (PreviousHash twice_block) = Some test_parent"
    by (simp add: select_block_def test_store_def twice_block_def test_block_def test_parent_def
        sql_match_def EmptyHash_eq)
  have i: "insert_block twice_block test_store = Inr (test_store\<lparr>blocks := [test_parent, twice_block]\<rparr>)"
    using insert_block_fresh [of test_store twice_block]
    by (simp add: block_exists_def test_store_def twice_block_def test_block_def test_parent_def
        sql_match_def EmptyHash_eq)
  have v: "SignedTx_Valid test_stdlib test_tx = None"
    using test_tx_rules by (simp add: SignedTx_Valid_None_iff)
  have "addBlock test_stdlib twice_block test_store =
     Inl (InvalidBlockError ''cryptopuff: transaction already included in blockchain'' None)"
    unfolding addBlock_def p i option.case sum.case Let_def test_block_valid
    by (simp add: test_store_def copy_balances_def copy_included_def sql_match_def
        twice_block_def test_block_def test_parent_def EmptyHash_eq Let_def validTx_def
        select_balance_def is_included_def RequiredBalance_def test_tx_def debit_balance_def
        credit_balance_def addTx_def insert_included_def insert_block_tx_def
        v [unfolded test_tx_def] word_sless_alt)
  then show ?thesis by (simp add: DB_AddBlock_eq)
qed


lemma test_block_exists:
  "block_exists scenario_store (Hash test_block)"
  "block_exists scenario_store (PreviousHash test_block)"
  "block_exists test_store (Hash test_parent)"
  "\<not> block_exists test_store (Hash test_block)"
  by (simp_all add: block_exists_def scenario_store_def test_store_def test_block_def
      test_parent_def sql_match_def EmptyHash_eq)

theorem AddBlock_idempotent_witness:
  "DB_AddBlock test_stdlib test_block test_store = (None, scenario_store) \<and>
   block_exists scenario_store (Hash test_block) \<and>
   block_exists scenario_store (PreviousHash test_block) \<and>
   DB_AddBlock test_stdlib test_block scenario_store = (None, scenario_store)"
  using AddBlock_idempotent [of scenario_store test_block test_stdlib] test_block_exists
    scenario_AddBlock
  by simp

lemma twice_block_facts:
  "\<not> block_exists test_store (Hash twice_block)"
  "block_exists test_store (PreviousHash twice_block)"
  "Hash twice_block \<noteq> EmptyHash"
  "list_all (\<lambda>t. TxHash t \<noteq> EmptyHash) (Transactions twice_block)"
  "foreign_keys_hold test_store"
  "length (Transactions twice_block) = 2"
  "TxHash (Transactions twice_block ! 0) = TxHash (Transactions twice_block ! 1)"
  by (simp_all add: block_exists_def test_store_def twice_block_def test_block_def
      test_parent_def sql_match_def EmptyHash_eq test_tx_def foreign_keys_hold_def)

theorem AddBlock_duplicate_tx_witness:
  "\<not> block_exists test_store (Hash twice_block) \<and> (0::nat) < 1 \<and>
   1 < length (Transactions twice_block) \<and>
   TxHash (Transactions twice_block ! 0) = TxHash (Transactions twice_block ! 1) \<and>
   DB_AddBlock test_stdlib twice_block test_store =
     (Some (InvalidBlockError ''cryptopuff: transaction already included in blockchain'' None),
      test_store) \<and>
   is_InvalidBlockError
     (InvalidBlockError ''cryptopuff: transaction already included in blockchain'' None)"
proof -
  have l: "1 < length (Transactions twice_block)"
    by (simp add: twice_block_facts)
  from AddBlock_duplicate_tx [OF twice_block_facts(1) _ l twice_block_facts(7), of test_stdlib]
    twice_block_facts
  have "\<exists>err. DB_AddBlock test_stdlib twice_block test_store = (Some err, test_store) \<and>
      is_InvalidBlockError err"
    by auto
  with l twice_block_facts scenario_duplicate show ?thesis by simp
qed

text \<open>
  C10, as stated, fails: a block with a repeated transaction whose parent is not stored is
  answered with the sentinel \<open>ErrUnknownParent\<close>, which is not an \<open>InvalidBlockError\<close>.
\<close>

theorem AddBlock_duplicate_tx_counterexample:
  "TxHash (Transactions orphan_block ! 0) = TxHash (Transactions orphan_block ! 1) \<and>
   DB_AddBlock test_stdlib orphan_block test_store = (Some ErrUnknownParent, test_store) \<and>
   \<not> is_InvalidBlockError ErrUnknownParent"
proof -
  have "select_block test_store (PreviousHash orphan_block) = None"
    by (simp add: select_block_def test_store_def orphan_block_def test_parent_def sql_match_def)
  then have "addBlock test_stdlib orphan_block test_store = Inl ErrUnknownParent"
    by (simp add: addBlock_def)
  then show ?thesis
    by (simp add: DB_AddBlock_eq orphan_block_def)
qed

lemma test_fork_points:
  "fork_point test_store [test_block, test_parent] = 1"
  "fork_point scenario_store [test_block, test_parent] = 0"
  "fork_point test_store [twice_block, test_block] = 2"
  using test_block_exists twice_block_facts(1) by (simp_all add: fork_point_def)

theorem AddBlocks_fork_point_witness:
  "fork_point test_store [test_block, test_parent] = 1 \<and>
   DB_AddBlocks test_stdlib [test_block, test_parent] test_store = (None, scenario_store) \<and>
   fork_point scenario_store [test_block, test_parent] = 0 \<and>
   DB_AddBlocks test_stdlib [test_block, test_parent] scenario_store = (None, scenario_store) \<and>
   fork_point test_store [twice_block, test_block] = length [twice_block, test_block] \<and>
   DB_AddBlocks test_stdlib [twice_block, test_block] test_store = (None, test_store)"
  using AddBlocks_fork_point [of test_store "[test_block, test_parent]" test_stdlib]
    AddBlocks_fork_point [of scenario_store "[test_block, test_parent]" test_stdlib]
    AddBlocks_fork_point [of test_store "[twice_block, test_block]" test_stdlib]
  by (simp add: test_fork_points scenario_AddBlock)


end
